theory Spec2Isabelle
  imports Complex_Main "HOL-Library.Word"
begin

section \<open>Shared bridge data model (include/shared\_bridge.h)\<close>

text \<open>
  Bytes are 8-bit words. The blackboard's \<open>int32_t\<close> values are 32-bit words read
  with \<open>sint\<close>, so that the evaluator's additions and subtractions wrap around.
  Pixel coordinates, frame dimensions and priorities are \<open>int\<close>: a frame is at most
  1920 by 1080, so the index arithmetic of the detectors stays far inside \<open>int32_t\<close>.
  The \<open>float\<close> fields carry the value of the literal or of the exact quotient;
  rounding to binary32 is not modelled.
\<close>

type_synonym u8 = "8 word"
type_synonym u32 = "32 word"
type_synonym i32 = "32 word"

datatype GameState =
    GAME_STATE_IDLE
  | GAME_STATE_DETECTING
  | GAME_STATE_ACTION_PENDING
  | GAME_STATE_EXECUTING
  | GAME_STATE_PAUSED
  | GAME_STATE_ERROR

datatype ActionType =
    ACTION_NONE
  | ACTION_TAP
  | ACTION_SWIPE
  | ACTION_LONG_PRESS
  | ACTION_DRAG
  | ACTION_WAIT

record Point2D =
  pt_x :: int
  pt_y :: int

record Rect2D =
  rect_x :: int
  rect_y :: int
  rect_width :: int
  rect_height :: int

record ColorHSV =
  hsv_h :: u8
  hsv_s :: u8
  hsv_v :: u8

record VisionResult =
  trigger_id :: u32
  found :: bool
  confidence :: real
  location :: Point2D
  bounding_box :: Rect2D
  timestamp_ns :: int

record ActionCommand =
  ac_type :: ActionType
  ac_start :: Point2D
  ac_end :: Point2D
  duration_ms :: int
  hold_ms :: int
  randomize :: real

record DecisionRule =
  condition :: string
  action :: ActionType
  action_target :: Point2D
  priority :: int

text \<open>
  Memory that the detectors only read (the frame buffer behind the header, the pixels
  of a template) is a function from the byte offset to the byte.
\<close>

type_synonym pixels = "int \<Rightarrow> u8"

record TemplateData =
  tmpl_id :: u32
  tmpl_name :: string
  tmpl_data :: pixels
  tmpl_width :: int
  tmpl_height :: int
  threshold :: real
  search_region :: Rect2D

text \<open>The trigger's type tag and its union of parameters are one sum type; the template
  trigger carries \<open>template_id\<close>, the edge trigger the colour and the \<open>horizontal\<close> flag.\<close>

datatype TriggerParams =
    TRIGGER_TEMPLATE_MATCH nat
  | TRIGGER_COLOR_MATCH ColorHSV
  | TRIGGER_EDGE_DETECT ColorHSV bool
  | TRIGGER_OCR_REGION

record VisualTrigger =
  trig_id :: u32
  trig_name :: string
  params :: TriggerParams
  region :: Rect2D
  active :: bool

record SharedMemoryHeader =
  magic :: u32
  version :: u32
  frame_number :: nat
  frame_timestamp_ns :: int
  frame_ready :: u32
  result_ready :: u32
  current_state :: GameState
  frame_width :: int
  frame_height :: int
  frame_stride :: int
  vision_latency_ns :: int
  brain_latency_ns :: int
  total_latency_ns :: int
  num_results :: nat
  shm_results :: "VisionResult list"
  pending_action :: ActionCommand
  frame_buffer :: pixels

text \<open>
  \<open>get_time_ns\<close> reads the monotonic clock. The clock is a parameter \<open>now\<close>, the value of
  its \<open>k\<close>-th reading, and every function that reads it takes the number of readings made
  so far and returns the new number.
\<close>

type_synonym clock = "nat \<Rightarrow> int"

text \<open>C's integer division truncates towards zero.\<close>

definition c_div :: "int \<Rightarrow> int \<Rightarrow> int" where
  "c_div a b = (if (a < 0) = (b < 0) then \<bar>a\<bar> div \<bar>b\<bar> else - (\<bar>a\<bar> div \<bar>b\<bar>))"

section \<open>Logic brain (src/c\_core/logic\_brain.c)\<close>

subsection \<open>Blackboard\<close>

text \<open>
  A C string is modelled by the list of its characters before the terminating NUL.
  \<open>g_variables[0 .. g_variable_count)\<close> is the list of entries, oldest first.
\<close>

record Variable =
  var_name :: string
  var_value :: i32

definition MAX_RULES :: nat where
  "MAX_RULES = 256"

definition MAX_VARIABLES :: nat where
  "MAX_VARIABLES = 64"

text \<open>The first loop of \<open>set_variable\<close>: overwrite the first entry whose name is equal
  (\<open>strcmp\<close>), or report that there is none.\<close>

fun replace_variable :: "string \<Rightarrow> i32 \<Rightarrow> Variable list \<Rightarrow> Variable list option" where
  "replace_variable n v [] = None"
| "replace_variable n v (e # es) =
     (if var_name e = n then Some (e\<lparr>var_value := v\<rparr> # es)
      else map_option ((#) e) (replace_variable n v es))"

text \<open>\<open>strncpy(dst, name, 31); dst[31] = 0\<close> keeps the first 31 characters.\<close>

definition set_variable :: "Variable list \<Rightarrow> string \<Rightarrow> i32 \<Rightarrow> int \<times> Variable list" where
  "set_variable vs n v =
     (case replace_variable n v vs of
        Some vs' \<Rightarrow> (0, vs')
      | None \<Rightarrow>
          if length vs \<ge> MAX_VARIABLES then (- 1, vs)
          else (0, vs @ [\<lparr>var_name = take 31 n, var_value = v\<rparr>]))"

fun get_variable :: "Variable list \<Rightarrow> string \<Rightarrow> i32" where
  "get_variable [] n = 0"
| "get_variable (e # es) n = (if var_name e = n then var_value e else get_variable es n)"

subsection \<open>Expression parser\<close>

datatype Token =
    TOKEN_NUMBER i32
  | TOKEN_VARIABLE string
  | TOKEN_OP_GT
  | TOKEN_OP_LT
  | TOKEN_OP_GE
  | TOKEN_OP_LE
  | TOKEN_OP_EQ
  | TOKEN_OP_NE
  | TOKEN_OP_ADD
  | TOKEN_OP_SUB
  | TOKEN_OP_AND
  | TOKEN_OP_OR
  | TOKEN_END

text \<open>The \<open>ctype.h\<close> classes in the C locale.\<close>

definition isspace :: "char \<Rightarrow> bool" where
  "isspace c \<longleftrightarrow> c \<in> set [CHR '' '', CHR 0x09, CHR 0x0A, CHR 0x0B, CHR 0x0C, CHR 0x0D]"

definition isdigit :: "char \<Rightarrow> bool" where
  "isdigit c \<longleftrightarrow> c \<in> set ''0123456789''"

definition isalpha :: "char \<Rightarrow> bool" where
  "isalpha c \<longleftrightarrow> c \<in> set ''abcdefghijklmnopqrstuvwxyzABCDEFGHIJKLMNOPQRSTUVWXYZ''"

definition isalnum :: "char \<Rightarrow> bool" where
  "isalnum c \<longleftrightarrow> isalpha c \<or> isdigit c"

text \<open>The character under the pointer: at the end of the string it is the NUL.\<close>

definition peek :: "string \<Rightarrow> char" where
  "peek s = (case s of [] \<Rightarrow> CHR 0x00 | c # _ \<Rightarrow> c)"

definition digit_val :: "char \<Rightarrow> nat" where
  "digit_val c = of_char c - 48"

text \<open>
  \<open>strtol(expr, &expr, 10)\<close> as \<open>tokenize\<close> calls it: on a digit, or on a minus
  sign followed by a digit. The result saturates at the bounds of a 64-bit \<open>long\<close>.
\<close>

definition strtol :: "string \<Rightarrow> int \<times> string" where
  "strtol s =
     (let neg = (peek s = CHR ''-'');
          body = (if neg then tl s else s);
          n = int (foldl (\<lambda>a c. 10 * a + digit_val c) 0 (takeWhile isdigit body));
          v = (if neg then max (- (2 ^ 63)) (- n) else min (2 ^ 63 - 1) n)
      in (v, dropWhile isdigit body))"

text \<open>\<open>tokenize\<close> after the leading white space has been skipped.\<close>

definition tokenize_at :: "string \<Rightarrow> Token \<times> string" where
  "tokenize_at expr =
     (if expr = [] then (TOKEN_END, expr)
      else if isdigit (peek expr) \<or> (peek expr = CHR ''-'' \<and> isdigit (peek (tl expr))) then
        (TOKEN_NUMBER (word_of_int (fst (strtol expr))), snd (strtol expr))
      else if peek expr = CHR ''>'' \<and> peek (tl expr) = CHR ''='' then (TOKEN_OP_GE, drop 2 expr)
      else if peek expr = CHR ''<'' \<and> peek (tl expr) = CHR ''='' then (TOKEN_OP_LE, drop 2 expr)
      else if peek expr = CHR ''='' \<and> peek (tl expr) = CHR ''='' then (TOKEN_OP_EQ, drop 2 expr)
      else if peek expr = CHR ''!'' \<and> peek (tl expr) = CHR ''='' then (TOKEN_OP_NE, drop 2 expr)
      else if peek expr = CHR ''&'' \<and> peek (tl expr) = CHR ''&'' then (TOKEN_OP_AND, drop 2 expr)
      else if peek expr = CHR ''|'' \<and> peek (tl expr) = CHR ''|'' then (TOKEN_OP_OR, drop 2 expr)
      else if peek expr = CHR ''>'' then (TOKEN_OP_GT, drop 1 expr)
      else if peek expr = CHR ''<'' then (TOKEN_OP_LT, drop 1 expr)
      else if peek expr = CHR ''+'' then (TOKEN_OP_ADD, drop 1 expr)
      else if peek expr = CHR ''-'' then (TOKEN_OP_SUB, drop 1 expr)
      else if isalpha (peek expr) \<or> peek expr = CHR ''_'' then
        (let str_value = take 31 (takeWhile (\<lambda>c. isalnum c \<or> c = CHR ''_'') expr)
         in (TOKEN_VARIABLE str_value, drop (length str_value) expr))
      else (TOKEN_END, expr))"

definition tokenize :: "string \<Rightarrow> Token \<times> string" where
  "tokenize expr = tokenize_at (dropWhile isspace expr)"

lemma strtol_length: "length (snd (strtol s)) \<le> length s"
proof -
  have "length (dropWhile isdigit (tl s)) \<le> length s"
    using length_dropWhile_le [of isdigit "tl s"] by (cases s) simp_all
  moreover have "length (dropWhile isdigit s) \<le> length s"
    by (rule length_dropWhile_le)
  ultimately show ?thesis
    by (simp add: strtol_def Let_def)
qed

lemma tokenize_at_length: "length (snd (tokenize_at s)) \<le> length s"
  using strtol_length [of s] by (simp add: tokenize_at_def Let_def)

lemma tokenize_length: "length (snd (tokenize s)) \<le> length s"
  using tokenize_at_length [of "dropWhile isspace s"] length_dropWhile_le [of isspace s]
  by (simp add: tokenize_def)

lemma tokenize_at_op_length:
  "fst (tokenize_at s) \<in> {TOKEN_OP_ADD, TOKEN_OP_SUB, TOKEN_OP_AND, TOKEN_OP_OR}
     \<Longrightarrow> length (snd (tokenize_at s)) < length s"
  unfolding tokenize_at_def Let_def
  by (cases s) (auto split: if_splits)

lemma tokenize_op_length:
  "fst (tokenize s) \<in> {TOKEN_OP_ADD, TOKEN_OP_SUB, TOKEN_OP_AND, TOKEN_OP_OR}
     \<Longrightarrow> length (snd (tokenize s)) < length s"
  using tokenize_at_op_length [of "dropWhile isspace s"] length_dropWhile_le [of isspace s]
  by (simp add: tokenize_def)


lemma tokenize_lengthD: "(t, r) = tokenize s \<Longrightarrow> length r \<le> length s"
  using tokenize_length [of s] by (metis snd_conv)

lemma tokenize_op_lengthD:
  "(t, r) = tokenize s \<Longrightarrow> t \<in> {TOKEN_OP_ADD, TOKEN_OP_SUB, TOKEN_OP_AND, TOKEN_OP_OR}
     \<Longrightarrow> length r < length s"
  using tokenize_op_length [of s] by (metis fst_conv snd_conv)

text \<open>
  \<open>eval_value\<close> advances the caller's pointer: the model returns the value and the
  rest of the string. When the token after the atom is no arithmetic operator the
  pointer is put back to where the atom ended.
\<close>

function eval_value :: "Variable list \<Rightarrow> string \<Rightarrow> i32 \<times> string" where
  "eval_value vs expr =
     (case tokenize expr of (token, e1) \<Rightarrow>
        let val = (case token of
                     TOKEN_NUMBER n \<Rightarrow> n
                   | TOKEN_VARIABLE s \<Rightarrow> get_variable vs s
                   | _ \<Rightarrow> 0)
        in case tokenize e1 of (op, e2) \<Rightarrow>
             if op = TOKEN_OP_ADD then
               (case eval_value vs e2 of (r, e3) \<Rightarrow> (val + r, e3))
             else if op = TOKEN_OP_SUB then
               (case eval_value vs e2 of (r, e3) \<Rightarrow> (val - r, e3))
             else (val, e1))"
  by pat_completeness auto
termination
proof (relation "measure (\<lambda>(vs, expr). length expr)", goal_cases)
  case 1
  show ?case by simp
next
  case (2 vs expr token e1 val op e2)
  then show ?case
    using tokenize_op_lengthD [of op e2 e1] tokenize_lengthD [of token e1 expr] by simp
next
  case (3 vs expr token e1 val op e2)
  then show ?case
    using tokenize_op_lengthD [of op e2 e1] tokenize_lengthD [of token e1 expr] by simp
qed

declare eval_value.simps [simp del]

lemma eval_value_length: "length (snd (eval_value vs s)) \<le> length s"
proof (induction vs s rule: eval_value.induct)
  case (1 vs expr)
  obtain token e1 where t1: "tokenize expr = (token, e1)" by (cases "tokenize expr")
  obtain op e2 where t2: "tokenize e1 = (op, e2)" by (cases "tokenize e1")
  have l1: "length e1 \<le> length expr" using tokenize_lengthD [of token e1 expr] t1 by simp
  have l2: "length e2 \<le> length e1" using tokenize_lengthD [of op e2 e1] t2 by simp
  show ?case
    using 1 [OF t1 [symmetric] refl t2 [symmetric]] l1 l2
    by (subst eval_value.simps) (auto simp: t1 t2 Let_def split: prod.splits)
qed

lemma eval_value_lengthD: "(v, r) = eval_value vs s \<Longrightarrow> length r \<le> length s"
  using eval_value_length [of vs s] by (metis snd_conv)

text \<open>\<open>eval_condition\<close> returns 1 or 0; the model returns the truth value. C evaluates
  \<open>&&\<close> and \<open>||\<close> lazily, which is not observable here: evaluation reads the blackboard
  only.\<close>

function eval_condition :: "Variable list \<Rightarrow> string \<Rightarrow> bool" where
  "eval_condition vs cond =
     (case eval_value vs cond of (left, c1) \<Rightarrow>
        case tokenize c1 of (op, c2) \<Rightarrow>
          if op = TOKEN_END then left \<noteq> 0
          else
            (case eval_value vs c2 of (right, c3) \<Rightarrow>
               let result = (case op of
                               TOKEN_OP_GT \<Rightarrow> right <s left
                             | TOKEN_OP_LT \<Rightarrow> left <s right
                             | TOKEN_OP_GE \<Rightarrow> right \<le>s left
                             | TOKEN_OP_LE \<Rightarrow> left \<le>s right
                             | TOKEN_OP_EQ \<Rightarrow> left = right
                             | TOKEN_OP_NE \<Rightarrow> left \<noteq> right
                             | _ \<Rightarrow> False)
               in case tokenize c3 of (logical, c4) \<Rightarrow>
                    if logical = TOKEN_OP_AND then result \<and> eval_condition vs c4
                    else if logical = TOKEN_OP_OR then result \<or> eval_condition vs c4
                    else result))"
  by pat_completeness auto
termination
proof (relation "measure (\<lambda>(vs, c). length c)", goal_cases)
  case 1
  show ?case by simp
next
  case (2 vs cond left c1 op c2 right c3 result logical c4)
  then show ?case
    using tokenize_op_lengthD [of logical c4 c3] tokenize_lengthD [of op c2 c1]
      eval_value_lengthD [of left c1 vs cond] eval_value_lengthD [of right c3 vs c2] by simp
next
  case (3 vs cond left c1 op c2 right c3 result logical c4)
  then show ?case
    using tokenize_op_lengthD [of logical c4 c3] tokenize_lengthD [of op c2 c1]
      eval_value_lengthD [of left c1 vs cond] eval_value_lengthD [of right c3 vs c2] by simp
qed

declare eval_condition.simps [simp del]


subsection \<open>Rule evaluation\<close>

text \<open>The process-wide tables of the brain: \<open>g_rule_count\<close> and \<open>g_variable_count\<close> are
  the lengths of the two lists.\<close>

record Brain =
  g_rules :: "DecisionRule list"
  g_variables :: "Variable list"
  g_current_state :: GameState

text \<open>\<open>%u\<close> of \<open>snprintf\<close>: the decimal digits of an unsigned number.\<close>

fun utoa :: "nat \<Rightarrow> string" where
  "utoa n = (if n < 10 then [''0123456789'' ! n] else utoa (n div 10) @ [''0123456789'' ! (n mod 10)])"

declare utoa.simps [simp del]

text \<open>One iteration of the loop that copies a found result into the blackboard; the
  return values of \<open>set_variable\<close> are ignored there.\<close>

definition update_variables :: "Variable list \<Rightarrow> VisionResult \<Rightarrow> Variable list" where
  "update_variables vs r =
     (if found r then
        (let var_x = ''trigger_'' @ utoa (unat (trigger_id r)) @ ''_x'';
             var_y = ''trigger_'' @ utoa (unat (trigger_id r)) @ ''_y'';
             var_found = ''trigger_'' @ utoa (unat (trigger_id r)) @ ''_found'';
             lx = word_of_int (pt_x (location r));
             ly = word_of_int (pt_y (location r));
             vs1 = snd (set_variable vs var_x lx);
             vs2 = snd (set_variable vs1 var_y ly);
             vs3 = snd (set_variable vs2 var_found 1)
         in if trigger_id r = 1 then
              snd (set_variable (snd (set_variable vs3 ''bird_x'' lx)) ''bird_y'' ly)
            else if trigger_id r = 2 then
              snd (set_variable (snd (set_variable vs3 ''gap_center_x'' lx)) ''gap_center_y'' ly)
            else vs3)
      else vs)"

text \<open>The rule loop, with \<open>(best_priority, best_rule)\<close> as its state.\<close>

fun eval_rules ::
  "Variable list \<Rightarrow> DecisionRule list \<Rightarrow> int \<times> DecisionRule option \<Rightarrow> int \<times> DecisionRule option"
where
  "eval_rules vs [] best = best"
| "eval_rules vs (r # rs) (best_priority, best_rule) =
     eval_rules vs rs
       (if priority r > best_priority then
          (if eval_condition vs (condition r) then (priority r, Some r)
           else (best_priority, best_rule))
        else (best_priority, best_rule))"

text \<open>The command after \<open>memset\<close> and \<open>action.type = ACTION_NONE\<close>.\<close>

definition no_action :: ActionCommand where
  "no_action =
     \<lparr>ac_type = ACTION_NONE, ac_start = \<lparr>pt_x = 0, pt_y = 0\<rparr>, ac_end = \<lparr>pt_x = 0, pt_y = 0\<rparr>,
      duration_ms = 0, hold_ms = 0, randomize = 0\<rparr>"

text \<open>
  \<open>brain_evaluate\<close> reads and writes the global tables, so the model takes the brain
  and returns it. \<open>results\<close> is \<open>None\<close> for the null pointer, and otherwise the array,
  which holds at least \<open>count\<close> elements.
\<close>

definition brain_evaluate ::
  "Brain \<Rightarrow> VisionResult list option \<Rightarrow> int \<Rightarrow> ActionCommand \<times> Brain"
where
  "brain_evaluate b results count =
     (case results of
        None \<Rightarrow> (no_action, b)
      | Some rs \<Rightarrow>
          if count \<le> 0 then (no_action, b)
          else
            (let vs = foldl update_variables (g_variables b) (take (nat count) rs);
                 best_rule = snd (eval_rules vs (g_rules b) (- 1, None));
                 act = (case best_rule of
                          None \<Rightarrow> no_action
                        | Some r \<Rightarrow>
                            no_action\<lparr>ac_type := action r, ac_start := action_target r,
                              duration_ms := 50, randomize := 3 / 10\<rparr>)
             in (act, b\<lparr>g_variables := vs\<rparr>)))"

subsection \<open>Scenario data\<close>

text \<open>The rules of scenario S4 of the specification.\<close>

definition rule_R1 :: DecisionRule where
  "rule_R1 = \<lparr>condition = ''bird_y > gap_center_y'', action = ACTION_TAP,
     action_target = \<lparr>pt_x = 500, pt_y = 500\<rparr>, priority = 1\<rparr>"

definition rule_R2 :: DecisionRule where
  "rule_R2 = \<lparr>condition = ''bird_y > gap_center_y + 20'', action = ACTION_TAP,
     action_target = \<lparr>pt_x = 600, pt_y = 600\<rparr>, priority = 2\<rparr>"

subsection \<open>The grammar of the specification\<close>

text \<open>
  The condition language as the specification words it, kept apart from the code:
  \<open>condition := value relop value (logical condition)?\<close>,
  \<open>value := atom (('+' | '-') value)?\<close>, \<open>atom := NUMBER | IDENT\<close>.
  A syntax tree records the white space written before each token (and after the last one),
  so that \<open>render_condition\<close> yields every way of writing the condition. \<open>holds\<close> is the
  strictly right-recursive reading: an operator applies to everything to its right.
\<close>

datatype atom = Number bool string | Ident string

datatype valexp =
    Atom string atom
  | Plus string atom string valexp
  | Minus string atom string valexp

datatype relop = Gt | Lt | Ge | Le | Eq | Ne

datatype logical = And | Or

datatype condexp =
    Truth valexp string
  | Compare valexp string relop valexp string
  | Chain valexp string relop valexp string logical condexp

fun lexeme :: "atom \<Rightarrow> string" where
  "lexeme (Number neg ds) = (if neg then ''-'' else []) @ ds"
| "lexeme (Ident n) = n"

fun render_value :: "valexp \<Rightarrow> string" where
  "render_value (Atom w a) = w @ lexeme a"
| "render_value (Plus w a w' v) = w @ lexeme a @ w' @ ''+'' @ render_value v"
| "render_value (Minus w a w' v) = w @ lexeme a @ w' @ ''-'' @ render_value v"

fun relop_text :: "relop \<Rightarrow> string" where
  "relop_text Gt = ''>''"
| "relop_text Lt = ''<''"
| "relop_text Ge = ''>=''"
| "relop_text Le = ''<=''"
| "relop_text Eq = ''==''"
| "relop_text Ne = ''!=''"

fun logical_text :: "logical \<Rightarrow> string" where
  "logical_text And = ''&&''"
| "logical_text Or = ''||''"

fun render_condition :: "condexp \<Rightarrow> string" where
  "render_condition (Truth v w) = render_value v @ w"
| "render_condition (Compare v1 w op v2 w') =
     render_value v1 @ w @ relop_text op @ render_value v2 @ w'"
| "render_condition (Chain v1 w op v2 w' l c) =
     render_value v1 @ w @ relop_text op @ render_value v2 @ w' @ logical_text l
       @ render_condition c"

definition blank :: "string \<Rightarrow> bool" where
  "blank w \<longleftrightarrow> list_all isspace w"

fun wf_atom :: "atom \<Rightarrow> bool" where
  "wf_atom (Number neg ds) \<longleftrightarrow> ds \<noteq> [] \<and> list_all isdigit ds"
| "wf_atom (Ident n) \<longleftrightarrow>
     n \<noteq> [] \<and> (isalpha (hd n) \<or> hd n = CHR ''_'')
     \<and> list_all (\<lambda>c. isalnum c \<or> c = CHR ''_'') n \<and> length n \<le> 31"

fun wf_value :: "valexp \<Rightarrow> bool" where
  "wf_value (Atom w a) \<longleftrightarrow> blank w \<and> wf_atom a"
| "wf_value (Plus w a w' v) \<longleftrightarrow> blank w \<and> wf_atom a \<and> blank w' \<and> wf_value v"
| "wf_value (Minus w a w' v) \<longleftrightarrow>
     blank w \<and> wf_atom a \<and> blank w' \<and> wf_value v \<and> \<not> isdigit (peek (render_value v))"

fun wf_condition :: "condexp \<Rightarrow> bool" where
  "wf_condition (Truth v w) \<longleftrightarrow> wf_value v \<and> blank w"
| "wf_condition (Compare v1 w op v2 w') \<longleftrightarrow> wf_value v1 \<and> blank w \<and> wf_value v2 \<and> blank w'"
| "wf_condition (Chain v1 w op v2 w' l c) \<longleftrightarrow>
     wf_value v1 \<and> blank w \<and> wf_value v2 \<and> blank w' \<and> wf_condition c"

fun atom_value :: "Variable list \<Rightarrow> atom \<Rightarrow> i32" where
  "atom_value vs (Number neg ds) = word_of_int (fst (strtol (lexeme (Number neg ds))))"
| "atom_value vs (Ident n) = get_variable vs n"

fun value_of :: "Variable list \<Rightarrow> valexp \<Rightarrow> i32" where
  "value_of vs (Atom w a) = atom_value vs a"
| "value_of vs (Plus w a w' v) = atom_value vs a + value_of vs v"
| "value_of vs (Minus w a w' v) = atom_value vs a - value_of vs v"

fun compare :: "relop \<Rightarrow> i32 \<Rightarrow> i32 \<Rightarrow> bool" where
  "compare Gt l r \<longleftrightarrow> r <s l"
| "compare Lt l r \<longleftrightarrow> l <s r"
| "compare Ge l r \<longleftrightarrow> r \<le>s l"
| "compare Le l r \<longleftrightarrow> l \<le>s r"
| "compare Eq l r \<longleftrightarrow> l = r"
| "compare Ne l r \<longleftrightarrow> l \<noteq> r"

fun holds :: "Variable list \<Rightarrow> condexp \<Rightarrow> bool" where
  "holds vs (Truth v w) \<longleftrightarrow> value_of vs v \<noteq> 0"
| "holds vs (Compare v1 w op v2 w') \<longleftrightarrow> compare op (value_of vs v1) (value_of vs v2)"
| "holds vs (Chain v1 w op v2 w' l c) \<longleftrightarrow>
     (case l of
        And \<Rightarrow> compare op (value_of vs v1) (value_of vs v2) \<and> holds vs c
      | Or \<Rightarrow> compare op (value_of vs v1) (value_of vs v2) \<or> holds vs c)"

text \<open>The token the code should read for a relational operator.\<close>

fun relop_token :: "relop \<Rightarrow> Token" where
  "relop_token Gt = TOKEN_OP_GT"
| "relop_token Lt = TOKEN_OP_LT"
| "relop_token Ge = TOKEN_OP_GE"
| "relop_token Le = TOKEN_OP_LE"
| "relop_token Eq = TOKEN_OP_EQ"
| "relop_token Ne = TOKEN_OP_NE"

text \<open>\<open>3-2 > 0\<close>, and \<open>1 > 2 && 1 > 2 || 10 - 3 + 2 == 5\<close>.\<close>

definition glued_minus :: condexp where
  "glued_minus =
     Compare (Minus [] (Number False ''3'') [] (Atom [] (Number False ''2''))) '' '' Gt
       (Atom '' '' (Number False ''0'')) []"

definition chained :: condexp where
  "chained =
     Chain (Atom [] (Number False ''1'')) '' '' Gt (Atom '' '' (Number False ''2'')) '' '' And
       (Chain (Atom '' '' (Number False ''1'')) '' '' Gt (Atom '' '' (Number False ''2'')) '' '' Or
          (Compare
             (Minus '' '' (Number False ''10'') '' ''
                (Plus '' '' (Number False ''3'') '' '' (Atom '' '' (Number False ''2''))))
             '' '' Eq (Atom '' '' (Number False ''5'')) []))"

section \<open>Vision engine (src/c\_core/vision\_engine.c)\<close>

record Vision =
  g_templates :: "TemplateData list"
  g_triggers :: "VisualTrigger list"

subsection \<open>Pixel primitives\<close>

definition rgb_to_hsv :: "u8 \<Rightarrow> u8 \<Rightarrow> u8 \<Rightarrow> u8 \<times> u8 \<times> u8" where
  "rgb_to_hsv r g b =
     (let mx = (if r > g then (if r > b then r else b) else (if g > b then g else b));
          mn = (if r < g then (if r < b then r else b) else (if g < b then g else b));
          delta = mx - mn;
          v = mx;
          s = (if mx = 0 then 0 else word_of_int (c_div (255 * uint delta) (uint mx)));
          h = (if delta = 0 then 0
               else if mx = r then
                 word_of_int (c_div (30 * (uint g - uint b)) (uint delta) + (if g < b then 180 else 0))
               else if mx = g then
                 word_of_int (c_div (30 * (uint b - uint r)) (uint delta) + 60)
               else
                 word_of_int (c_div (30 * (uint r - uint g)) (uint delta) + 120))
      in (h, s, v))"

text \<open>The pixel at \<open>(x, y)\<close> of a frame \<open>width\<close> pixels wide starts at byte
  \<open>(y * width + x) * 4\<close>.\<close>

definition pixel_hsv :: "pixels \<Rightarrow> int \<Rightarrow> int \<Rightarrow> int \<Rightarrow> u8 \<times> u8 \<times> u8" where
  "pixel_hsv frame width x y =
     rgb_to_hsv (frame ((y * width + x) * 4)) (frame ((y * width + x) * 4 + 1))
       (frame ((y * width + x) * 4 + 2))"

text \<open>The tolerance test in the body of the colour search.\<close>

definition within_tolerance :: "ColorHSV \<Rightarrow> int \<Rightarrow> u8 \<times> u8 \<times> u8 \<Rightarrow> bool" where
  "within_tolerance target tolerance hsv =
     (case hsv of (h, s, v) \<Rightarrow>
        let dh0 = \<bar>uint h - uint (hsv_h target)\<bar>;
            dh = (if dh0 > 90 then 180 - dh0 else dh0);
            ds = \<bar>uint s - uint (hsv_s target)\<bar>;
            dv = \<bar>uint v - uint (hsv_v target)\<bar>
        in dh \<le> tolerance \<and> ds \<le> tolerance \<and> dv \<le> tolerance)"

subsection \<open>Colour search\<close>

text \<open>
  The two nested loops of \<open>find_color_scalar\<close>, with \<open>(sum_x, sum_y, match_count)\<close> as
  their state. \<open>hit x y\<close> is the tolerance test on the pixel. The flag returned by the inner
  loop says that \<open>goto done\<close> was taken.
\<close>

fun scan_row ::
  "(int \<Rightarrow> int \<Rightarrow> bool) \<Rightarrow> int \<Rightarrow> int \<Rightarrow> int list \<Rightarrow> int \<times> int \<times> int
     \<Rightarrow> bool \<times> int \<times> int \<times> int"
where
  "scan_row hit max_matches y [] acc = (False, acc)"
| "scan_row hit max_matches y (x # xs) (sum_x, sum_y, match_count) =
     (if hit x y then
        (if match_count + 1 \<ge> max_matches then (True, (sum_x + x, sum_y + y, match_count + 1))
         else scan_row hit max_matches y xs (sum_x + x, sum_y + y, match_count + 1))
      else scan_row hit max_matches y xs (sum_x, sum_y, match_count))"

fun scan_rows ::
  "(int \<Rightarrow> int \<Rightarrow> bool) \<Rightarrow> int \<Rightarrow> int list \<Rightarrow> int list \<Rightarrow> int \<times> int \<times> int
     \<Rightarrow> int \<times> int \<times> int"
where
  "scan_rows hit max_matches xs [] acc = acc"
| "scan_rows hit max_matches xs (y # ys) acc =
     (case scan_row hit max_matches y xs acc of
        (True, acc') \<Rightarrow> acc'
      | (False, acc') \<Rightarrow> scan_rows hit max_matches xs ys acc')"

text \<open>The rectangle that the detectors scan for a region: \<open>(rx, ry, rw, rh)\<close>.\<close>

definition clip_region :: "int \<Rightarrow> int \<Rightarrow> Rect2D \<Rightarrow> int \<times> int \<times> int \<times> int" where
  "clip_region width height rg =
     (let rx = (if rect_x rg > 0 then rect_x rg else 0);
          ry = (if rect_y rg > 0 then rect_y rg else 0);
          rw = (if rect_width rg > 0 then rect_width rg else width);
          rh = (if rect_height rg > 0 then rect_height rg else height)
      in (rx, ry, if rx + rw > width then width - rx else rw,
          if ry + rh > height then height - ry else rh))"

text \<open>\<open>matches\<close> is \<open>None\<close> for a null pointer; otherwise it holds what the caller's
  \<open>Point2D\<close> held before the call, and the new contents are returned.\<close>

definition find_color_scalar ::
  "pixels \<Rightarrow> int \<Rightarrow> int \<Rightarrow> Rect2D \<Rightarrow> ColorHSV \<Rightarrow> int \<Rightarrow> Point2D option \<Rightarrow> int
     \<Rightarrow> int \<times> Point2D option"
where
  "find_color_scalar frame width height rg target tolerance matches max_matches =
     (case clip_region width height rg of (rx, ry, rw, rh) \<Rightarrow>
        case scan_rows (\<lambda>x y. within_tolerance target tolerance (pixel_hsv frame width x y))
               max_matches [rx .. rx + rw - 1] [ry .. ry + rh - 1] (0, 0, 0)
        of (sum_x, sum_y, match_count) \<Rightarrow>
          (match_count,
           if match_count > 0 then
             map_option (\<lambda>_. \<lparr>pt_x = c_div sum_x match_count, pt_y = c_div sum_y match_count\<rparr>)
               matches
           else matches))"

text \<open>The portable build: without SSE or NEON the public entry point calls the scalar
  search with a cap of 10000 matches. A null \<open>region\<close> stands for the whole frame.\<close>

definition vision_find_color_region ::
  "pixels \<Rightarrow> int \<Rightarrow> int \<Rightarrow> Rect2D option \<Rightarrow> ColorHSV \<Rightarrow> int \<Rightarrow> Point2D option
     \<Rightarrow> int \<times> Point2D option"
where
  "vision_find_color_region frame width height rg color tolerance out_center =
     find_color_scalar frame width height
       (case rg of
          None \<Rightarrow> \<lparr>rect_x = 0, rect_y = 0, rect_width = width, rect_height = height\<rparr>
        | Some r \<Rightarrow> r)
       color tolerance out_center 10000"




subsection \<open>Template matching\<close>

text \<open>The grey value of the pixel that starts at byte \<open>i\<close>: the mean of R, G and B.\<close>

definition gray :: "pixels \<Rightarrow> int \<Rightarrow> real" where
  "gray mem i = real_of_int (uint (mem i) + uint (mem (i + 1)) + uint (mem (i + 2))) / 3"

definition template_cells :: "TemplateData \<Rightarrow> (int \<times> int) list" where
  "template_cells tmpl =
     concat (map (\<lambda>ty. map (\<lambda>tx. (tx, ty)) [0 .. tmpl_width tmpl - 1]) [0 .. tmpl_height tmpl - 1])"

text \<open>
  Normalised cross-correlation at \<open>(fx, fy)\<close>. The three sums run over the template's
  pixels row by row; the arithmetic is that of the reals.
\<close>

definition template_match_scalar ::
  "pixels \<Rightarrow> int \<Rightarrow> int \<Rightarrow> int \<Rightarrow> int \<Rightarrow> TemplateData \<Rightarrow> real"
where
  "template_match_scalar frame fw fh fx fy tmpl =
     (if fx < 0 \<or> fy < 0 \<or> fx + tmpl_width tmpl > fw
         \<or> fy + tmpl_height tmpl > fh then 0
      else
        (let fval = (\<lambda>(tx, ty). gray frame (((fy + ty) * fw + fx) * 4 + tx * 4));
             tval = (\<lambda>(tx, ty). gray (tmpl_data tmpl) (ty * tmpl_width tmpl * 4 + tx * 4));
             sum_prod = (\<Sum>c\<leftarrow>template_cells tmpl. fval c * tval c);
             sum_frame_sq = (\<Sum>c\<leftarrow>template_cells tmpl. fval c * fval c);
             sum_tmpl_sq = (\<Sum>c\<leftarrow>template_cells tmpl. tval c * tval c);
             denom = sqrt (sum_frame_sq * sum_tmpl_sq)
         in if denom > 0 then sum_prod / denom else 0))"

text \<open>The body of both search loops: score the position and keep it when it is strictly
  better. The state is \<open>(best_score, best_x, best_y)\<close>.\<close>

definition try_position ::
  "pixels \<Rightarrow> int \<Rightarrow> int \<Rightarrow> TemplateData \<Rightarrow> real \<times> int \<times> int \<Rightarrow> int \<Rightarrow> int
     \<Rightarrow> real \<times> int \<times> int"
where
  "try_position frame width height tmpl best x y =
     (case best of (best_score, best_x, best_y) \<Rightarrow>
        let score = template_match_scalar frame width height x y tmpl
        in if score > best_score then (score, x, y) else (best_score, best_x, best_y))"

text \<open>The values of the loop variable of \<open>for (v = lo; v < hi; v += 4)\<close>.\<close>

function coarse_range :: "int \<Rightarrow> int \<Rightarrow> int list" where
  "coarse_range lo hi = (if lo < hi then lo # coarse_range (lo + 4) hi else [])"
  by pat_completeness auto
termination
  by (relation "measure (\<lambda>(lo, hi). nat (hi - lo))") auto

declare coarse_range.simps [simp del]

definition coarse_search ::
  "pixels \<Rightarrow> int \<Rightarrow> int \<Rightarrow> TemplateData \<Rightarrow> int list \<Rightarrow> int list \<Rightarrow> real \<times> int \<times> int
     \<Rightarrow> real \<times> int \<times> int"
where
  "coarse_search frame width height tmpl xs ys best =
     foldl (\<lambda>b y. foldl (\<lambda>b x. try_position frame width height tmpl b x y) b xs) best ys"

lemma gray_nonneg: "0 \<le> gray mem i"
proof -
  have "(0::int) \<le> uint (mem i) + uint (mem (i + 1)) + uint (mem (i + 2))" by simp
  then have "(0::real) \<le> real_of_int (uint (mem i) + uint (mem (i + 1)) + uint (mem (i + 2)))"
    by (simp only: of_int_0_le_iff)
  then show ?thesis unfolding gray_def by (rule divide_nonneg_nonneg) simp
qed

lemma template_match_scalar_nonneg: "0 \<le> template_match_scalar frame fw fh fx fy tmpl"
proof -
  have "0 \<le> (\<Sum>c\<leftarrow>template_cells tmpl.
      (case c of (tx, ty) \<Rightarrow> gray frame (((fy + ty) * fw + fx) * 4 + tx * 4))
      * (case c of (tx, ty) \<Rightarrow> gray (tmpl_data tmpl) (ty * tmpl_width tmpl * 4 + tx * 4)))"
    by (intro sum_list_nonneg) (auto simp: gray_nonneg)
  then show ?thesis
    by (simp add: template_match_scalar_def Let_def)
qed

lemma template_match_scalar_in_bounds:
  "0 < template_match_scalar frame fw fh fx fy tmpl \<Longrightarrow>
     0 \<le> fx \<and> 0 \<le> fy \<and> fx + tmpl_width tmpl \<le> fw \<and> fy + tmpl_height tmpl \<le> fh"
  by (auto simp: template_match_scalar_def split: if_splits)

text \<open>
  The fine search. Both loop conditions read \<open>best_x\<close> and \<open>best_y\<close>, which the loop
  body moves, so the window follows the best position as it improves.
\<close>

function fine_x ::
  "pixels \<Rightarrow> int \<Rightarrow> int \<Rightarrow> TemplateData \<Rightarrow> int \<Rightarrow> int \<Rightarrow> real \<times> int \<times> int
     \<Rightarrow> real \<times> int \<times> int"
where
  "fine_x frame width height tmpl y x (best_score, best_x, best_y) =
     (if x \<le> best_x + 4 then
        fine_x frame width height tmpl y (x + 1)
          (try_position frame width height tmpl (best_score, best_x, best_y) x y)
      else (best_score, best_x, best_y))"
  by pat_completeness auto
termination
proof (relation "measures
    [\<lambda>(frame, width, height, tmpl, y, x, best_score, best_x, best_y).
        if best_score < 0 then 1 else 0,
     \<lambda>(frame, width, height, tmpl, y, x, best_score, best_x, best_y).
        nat (max best_x (width - tmpl_width tmpl) + 5 - x)]", goal_cases)
  case 1
  show ?case by simp
next
  case (2 frame width height tmpl y x best_score best_x best_y)
  let ?s = "template_match_scalar frame width height x y tmpl"
  have nn: "0 \<le> ?s" by (rule template_match_scalar_nonneg)
  show ?case
  proof (cases "?s > best_score")
    case True
    show ?thesis
    proof (cases "best_score < 0")
      case True
      with \<open>?s > best_score\<close> nn show ?thesis by (simp add: try_position_def)
    next
      case False
      with True have "0 < ?s" by simp
      from template_match_scalar_in_bounds [OF this] have "x \<le> width - tmpl_width tmpl" by simp
      with True False 2 nn show ?thesis by (simp add: try_position_def max_def)
    qed
  next
    case False
    with 2 nn show ?thesis by (auto simp: try_position_def)
  qed
qed

declare fine_x.simps [simp del]


text \<open>What one row of the fine search can do to the best position.\<close>

lemma try_position_cases:
  "try_position frame width height tmpl (bs, bx, by) x y = (bs, bx, by)
     \<and> template_match_scalar frame width height x y tmpl \<le> bs
   \<or> try_position frame width height tmpl (bs, bx, by) x y
       = (template_match_scalar frame width height x y tmpl, x, y)
     \<and> bs < template_match_scalar frame width height x y tmpl"
  by (simp add: try_position_def Let_def)

lemma fine_x_mono: "fst b \<le> fst (fine_x frame width height tmpl y x b)"
proof (induction frame width height tmpl y x b rule: fine_x.induct)
  case (1 frame width height tmpl y x bs bx "by")
  show ?case
  proof (cases "x \<le> bx + 4")
    case True
    have "bs \<le> fst (try_position frame width height tmpl (bs, bx, by) x y)"
      using try_position_cases [of frame width height tmpl bs bx "by" x y] by auto
    also have "\<dots> \<le> fst (fine_x frame width height tmpl y (x + 1)
        (try_position frame width height tmpl (bs, bx, by) x y))"
      using 1 [OF True] .
    finally show ?thesis using True by (simp add: fine_x.simps [of _ _ _ _ _ x])
  next
    case False
    then show ?thesis by (simp add: fine_x.simps [of _ _ _ _ _ x])
  qed
qed

lemma fine_x_nonneg:
  assumes "x \<le> bx + 4"
  shows "0 \<le> fst (fine_x frame width height tmpl y x (bs, bx, by))"
proof -
  have "0 \<le> fst (try_position frame width height tmpl (bs, bx, by) x y)"
    using try_position_cases [of frame width height tmpl bs bx "by" x y]
      template_match_scalar_nonneg [of frame width height x y tmpl] by auto
  also have "\<dots> \<le> fst (fine_x frame width height tmpl y (x + 1)
      (try_position frame width height tmpl (bs, bx, by) x y))"
    by (rule fine_x_mono)
  finally show ?thesis using assms by (simp add: fine_x.simps [of _ _ _ _ _ x])
qed

lemma fine_x_result:
  "fine_x frame width height tmpl y x (bs, bx, by) = (bs, bx, by)
   \<or> (\<exists>x'. fine_x frame width height tmpl y x (bs, bx, by)
            = (template_match_scalar frame width height x' y tmpl, x', y)
          \<and> bs < template_match_scalar frame width height x' y tmpl)"
proof (induction frame width height tmpl y x "(bs, bx, by)" arbitrary: bs bx "by"
    rule: fine_x.induct)
  case (1 frame width height tmpl y x bs bx "by")
  show ?case
  proof (cases "x \<le> bx + 4")
    case False
    then show ?thesis by (simp add: fine_x.simps [of _ _ _ _ _ x])
  next
    case True
    let ?s = "template_match_scalar frame width height x y tmpl"
    from try_position_cases [of frame width height tmpl bs bx "by" x y]
    show ?thesis
    proof (elim disjE conjE)
      assume same: "try_position frame width height tmpl (bs, bx, by) x y = (bs, bx, by)"
      have step: "fine_x frame width height tmpl y x (bs, bx, by)
          = fine_x frame width height tmpl y (x + 1) (bs, bx, by)"
        using True same by (simp add: fine_x.simps [of _ _ _ _ _ x])
      from 1 [OF True same] step show ?thesis by simp
    next
      assume upd: "try_position frame width height tmpl (bs, bx, by) x y = (?s, x, y)"
        and better: "bs < ?s"
      have step: "fine_x frame width height tmpl y x (bs, bx, by)
          = fine_x frame width height tmpl y (x + 1) (?s, x, y)"
        using True upd by (simp add: fine_x.simps [of _ _ _ _ _ x])
      from 1 [OF True upd] show ?thesis
      proof (elim disjE exE conjE)
        assume "fine_x frame width height tmpl y (x + 1) (?s, x, y) = (?s, x, y)"
        with step better show ?thesis by auto
      next
        fix x'
        assume "fine_x frame width height tmpl y (x + 1) (?s, x, y)
            = (template_match_scalar frame width height x' y tmpl, x', y)"
          and "?s < template_match_scalar frame width height x' y tmpl"
        with step better show ?thesis by (intro disjI2 exI [of _ x']) simp
      qed
    qed
  qed
qed

function fine_y ::
  "pixels \<Rightarrow> int \<Rightarrow> int \<Rightarrow> TemplateData \<Rightarrow> int \<Rightarrow> real \<times> int \<times> int \<Rightarrow> real \<times> int \<times> int"
where
  "fine_y frame width height tmpl y (best_score, best_x, best_y) =
     (if y \<le> best_y + 4 then
        fine_y frame width height tmpl (y + 1)
          (fine_x frame width height tmpl y (best_x - 4) (best_score, best_x, best_y))
      else (best_score, best_x, best_y))"
  by pat_completeness auto
termination
proof (relation "measures
    [\<lambda>(frame, width, height, tmpl, y, best_score, best_x, best_y).
        if best_score < 0 then 1 else 0,
     \<lambda>(frame, width, height, tmpl, y, best_score, best_x, best_y).
        nat (max best_y (height - tmpl_height tmpl) + 5 - y)]", goal_cases)
  case 1
  show ?case by simp
next
  case (2 frame width height tmpl y bs bx "by")
  obtain bs' bx' by' where r: "fine_x frame width height tmpl y (bx - 4) (bs, bx, by) = (bs', bx', by')"
    by (cases "fine_x frame width height tmpl y (bx - 4) (bs, bx, by)")
  have nn: "0 \<le> bs'"
    using fine_x_nonneg [of "bx - 4" bx frame width height tmpl y bs "by"] r by simp
  show ?case
  proof (cases "bs < 0")
    case True
    with nn r show ?thesis by simp
  next
    case False
    from fine_x_result [of frame width height tmpl y "bx - 4" bs bx "by"] r
    have "by' = by \<or> by' = y \<and> y \<le> height - tmpl_height tmpl"
    proof (elim disjE exE conjE)
      assume "fine_x frame width height tmpl y (bx - 4) (bs, bx, by) = (bs, bx, by)"
      with r show ?thesis by simp
    next
      fix x'
      assume e: "fine_x frame width height tmpl y (bx - 4) (bs, bx, by)
            = (template_match_scalar frame width height x' y tmpl, x', y)"
        and b: "bs < template_match_scalar frame width height x' y tmpl"
      from b False have "0 < template_match_scalar frame width height x' y tmpl" by simp
      from template_match_scalar_in_bounds [OF this] e r show ?thesis by simp
    qed
    with False nn r 2 show ?thesis by (auto simp: max_def)
  qed
qed

declare fine_y.simps [simp del]

text \<open>
  The two search phases of \<open>vision_find_template\<close>. The search rectangle is the template's
  \<open>search_region\<close>; unlike the other detectors it is not cut at the frame's edges,
  out-of-frame positions score 0.
\<close>

definition search_rect :: "int \<Rightarrow> int \<Rightarrow> TemplateData \<Rightarrow> int \<times> int \<times> int \<times> int" where
  "search_rect width height tmpl =
     (if rect_x (search_region tmpl) > 0 then rect_x (search_region tmpl) else 0,
      if rect_y (search_region tmpl) > 0 then rect_y (search_region tmpl) else 0,
      if rect_width (search_region tmpl) > 0 then rect_width (search_region tmpl) else width,
      if rect_height (search_region tmpl) > 0 then rect_height (search_region tmpl) else height)"

definition template_search :: "pixels \<Rightarrow> int \<Rightarrow> int \<Rightarrow> TemplateData \<Rightarrow> real \<times> int \<times> int" where
  "template_search frame width height tmpl =
     (case search_rect width height tmpl of (rx, ry, rw, rh) \<Rightarrow>
        let coarse = coarse_search frame width height tmpl
                       (coarse_range rx (rx + rw - tmpl_width tmpl))
                       (coarse_range ry (ry + rh - tmpl_height tmpl)) (0, 0, 0)
        in if fst coarse > 1 / 2
           then fine_y frame width height tmpl (snd (snd coarse) - 4) coarse
           else coarse)"

text \<open>\<open>vision_find_template\<close> fills a static result and returns a pointer to it. It takes
  its own reading of the clock.\<close>

definition vision_find_template ::
  "pixels \<Rightarrow> int \<Rightarrow> int \<Rightarrow> TemplateData \<Rightarrow> clock \<Rightarrow> nat \<Rightarrow> VisionResult \<times> nat"
where
  "vision_find_template frame width height tmpl now k =
     (case template_search frame width height tmpl of (best_score, best_x, best_y) \<Rightarrow>
        (\<lparr>trigger_id = tmpl_id tmpl,
          found = (best_score \<ge> threshold tmpl),
          confidence = best_score,
          location = \<lparr>pt_x = best_x + c_div (tmpl_width tmpl) 2,
                      pt_y = best_y + c_div (tmpl_height tmpl) 2\<rparr>,
          bounding_box = \<lparr>rect_x = best_x, rect_y = best_y, rect_width = tmpl_width tmpl,
                          rect_height = tmpl_height tmpl\<rparr>,
          timestamp_ns = now k\<rparr>,
         Suc k))"

subsection \<open>Edge detection\<close>

text \<open>The gradient between the pixels that start at bytes \<open>i\<close> and \<open>j\<close>, summed over R, G
  and B.\<close>

definition grad :: "pixels \<Rightarrow> int \<Rightarrow> int \<Rightarrow> int" where
  "grad frame i j =
     \<bar>uint (frame i) - uint (frame j)\<bar> + \<bar>uint (frame (i + 1)) - uint (frame (j + 1))\<bar>
     + \<bar>uint (frame (i + 2)) - uint (frame (j + 2))\<bar>"

text \<open>The body of the outer loop: the state is \<open>(max_gradient, edge_pos)\<close>.\<close>

definition edge_step :: "(int \<Rightarrow> int) \<Rightarrow> int \<times> int \<Rightarrow> int \<Rightarrow> int \<times> int" where
  "edge_step gradient_sum st p =
     (case st of (max_gradient, edge_pos) \<Rightarrow>
        if gradient_sum p > max_gradient then (gradient_sum p, p) else (max_gradient, edge_pos))"

text \<open>Returns the status and what \<open>*out_position\<close> holds afterwards (\<open>None\<close> for a null
  pointer).\<close>

definition vision_detect_edge ::
  "pixels \<Rightarrow> int \<Rightarrow> int \<Rightarrow> Rect2D \<Rightarrow> bool \<Rightarrow> int option \<Rightarrow> int \<times> int option"
where
  "vision_detect_edge frame width height rg horizontal out_position =
     (case clip_region width height rg of (rx, ry, rw, rh) \<Rightarrow>
        case (if horizontal then
                foldl (edge_step (\<lambda>y. \<Sum>x\<leftarrow>[rx .. rx + rw - 1].
                         grad frame ((y + 1) * width * 4 + x * 4) ((y - 1) * width * 4 + x * 4)))
                  (0, - 1) [ry + 1 .. ry + rh - 2]
              else
                foldl (edge_step (\<lambda>x. \<Sum>y\<leftarrow>[ry .. ry + rh - 1].
                         grad frame (y * width * 4 + (x + 1) * 4) (y * width * 4 + (x - 1) * 4)))
                  (0, - 1) [rx + 1 .. rx + rw - 2])
        of (max_gradient, edge_pos) \<Rightarrow>
          (if max_gradient > 1000 then 0 else - 1, map_option (\<lambda>_. edge_pos) out_position))"

subsection \<open>Processing a frame\<close>

text \<open>
  The \<open>switch\<close> on the trigger's type: \<open>r\<close> is the result slot, in which \<open>trigger_id\<close>
  and \<open>timestamp_ns\<close> have just been written. \<open>junk\<close> is what the uninitialised local
  \<open>center\<close> holds. A template index is an \<open>int\<close> in the code; indices that do not fit are
  outside the model.
\<close>

definition run_trigger ::
  "Vision \<Rightarrow> clock \<Rightarrow> Point2D \<Rightarrow> pixels \<Rightarrow> int \<Rightarrow> int \<Rightarrow> VisualTrigger \<Rightarrow> VisionResult \<Rightarrow> nat
     \<Rightarrow> VisionResult \<times> nat"
where
  "run_trigger vis now junk frame width height t r k =
     (case params t of
        TRIGGER_TEMPLATE_MATCH tmpl_idx \<Rightarrow>
          if tmpl_idx < length (g_templates vis) then
            vision_find_template frame width height (g_templates vis ! tmpl_idx) now k
          else (r, k)
      | TRIGGER_COLOR_MATCH color \<Rightarrow>
          (case vision_find_color_region frame width height (Some (region t)) color 15 (Some junk)
           of (n, center) \<Rightarrow>
             (r\<lparr>found := n > 100,
                location := (case center of Some c \<Rightarrow> c | None \<Rightarrow> junk),
                confidence := (if n > 0 then 1 else 0)\<rparr>, k))
      | TRIGGER_EDGE_DETECT edge_color horizontal \<Rightarrow>
          (case vision_detect_edge frame width height (region t) horizontal (Some 0)
           of (ret, pos) \<Rightarrow>
             (r\<lparr>found := (ret = 0),
                location :=
                  (if horizontal then
                     \<lparr>pt_x = rect_x (region t) + c_div (rect_width (region t)) 2,
                      pt_y = (case pos of Some p \<Rightarrow> p | None \<Rightarrow> 0)\<rparr>
                   else
                     \<lparr>pt_x = (case pos of Some p \<Rightarrow> p | None \<Rightarrow> 0),
                      pt_y = rect_y (region t) + c_div (rect_height (region t)) 2\<rparr>),
                confidence := (if ret = 0 then 1 else 0)\<rparr>, k))
      | TRIGGER_OCR_REGION \<Rightarrow> (r, k))"

text \<open>The loop over the triggers; its state is \<open>result_count\<close>, the result slots and the
  number of clock readings.\<close>

fun process_triggers ::
  "Vision \<Rightarrow> clock \<Rightarrow> Point2D \<Rightarrow> pixels \<Rightarrow> int \<Rightarrow> int \<Rightarrow> int \<Rightarrow> VisualTrigger list
     \<Rightarrow> nat \<times> VisionResult list \<times> nat \<Rightarrow> nat \<times> VisionResult list \<times> nat"
where
  "process_triggers vis now junk frame width height start_time [] st = st"
| "process_triggers vis now junk frame width height start_time (t # ts) (result_count, slots, k) =
     (if result_count < 16 then
        (if \<not> active t then
           process_triggers vis now junk frame width height start_time ts (result_count, slots, k)
         else
           (case run_trigger vis now junk frame width height t
                   ((slots ! result_count)\<lparr>trigger_id := trig_id t, timestamp_ns := start_time\<rparr>) k
            of (r, k') \<Rightarrow>
              process_triggers vis now junk frame width height start_time ts
                (result_count + 1, slots[result_count := r], k')))
      else (result_count, slots, k))"

text \<open>\<open>shm\<close> is \<open>None\<close> for the null pointer. The status is returned with the header and
  the number of clock readings.\<close>

definition vision_process_frame ::
  "Vision \<Rightarrow> clock \<Rightarrow> Point2D \<Rightarrow> SharedMemoryHeader option \<Rightarrow> nat
     \<Rightarrow> int \<times> SharedMemoryHeader option \<times> nat"
where
  "vision_process_frame vis now junk shm k =
     (case shm of
        None \<Rightarrow> (- 1, None, k)
      | Some h \<Rightarrow>
          if frame_ready h = 0 then (- 1, Some h, k)
          else
            (let start_time = now k in
             case process_triggers vis now junk (frame_buffer h) (frame_width h) (frame_height h)
                    start_time (g_triggers vis) (0, shm_results h, Suc k)
             of (result_count, slots, k') \<Rightarrow>
               (0,
                Some (h\<lparr>shm_results := slots, num_results := result_count,
                         vision_latency_ns := now k' - start_time\<rparr>),
                Suc k')))"
subsection \<open>Predicates on search states and results\<close>




section \<open>State machine and frame handoff (src/c\_core/logic\_brain.c)\<close>

definition fsm_transition :: "GameState \<Rightarrow> int \<Rightarrow> int \<Rightarrow> GameState" where
  "fsm_transition current vision_results action_pending =
     (case current of
        GAME_STATE_IDLE \<Rightarrow> if vision_results > 0 then GAME_STATE_DETECTING else current
      | GAME_STATE_DETECTING \<Rightarrow>
          if action_pending \<noteq> 0 then GAME_STATE_ACTION_PENDING
          else if vision_results = 0 then GAME_STATE_IDLE
          else current
      | GAME_STATE_ACTION_PENDING \<Rightarrow> GAME_STATE_EXECUTING
      | GAME_STATE_EXECUTING \<Rightarrow> GAME_STATE_DETECTING
      | GAME_STATE_PAUSED \<Rightarrow> current
      | GAME_STATE_ERROR \<Rightarrow> current)"

text \<open>\<open>brain_process\<close> reads the clock twice and ends with the store \<open>result_ready = 1\<close>.\<close>

definition brain_process ::
  "Brain \<Rightarrow> clock \<Rightarrow> SharedMemoryHeader option \<Rightarrow> nat
     \<Rightarrow> int \<times> Brain \<times> SharedMemoryHeader option \<times> nat"
where
  "brain_process b now shm k =
     (case shm of
        None \<Rightarrow> (- 1, b, None, k)
      | Some h \<Rightarrow>
          (let start_time = now k;
               has_results =
                 (if num_results h > 0 \<and> list_all found (take (num_results h) (shm_results h))
                  then 1 else 0)
           in case brain_evaluate b (Some (shm_results h)) (int (num_results h)) of
                (act, b1) \<Rightarrow>
                  (let action_pending = (if ac_type act \<noteq> ACTION_NONE then 1 else 0);
                       new_state = fsm_transition (g_current_state b1) has_results action_pending;
                       h1 = (if action_pending \<noteq> 0 \<and> new_state = GAME_STATE_ACTION_PENDING
                             then h\<lparr>pending_action := act\<rparr> else h);
                       latency = now (Suc k) - start_time
                   in (0, b1\<lparr>g_current_state := new_state\<rparr>,
                       Some (h1\<lparr>current_state := new_state, brain_latency_ns := latency,
                                total_latency_ns := vision_latency_ns h1 + latency,
                                result_ready := 1\<rparr>),
                       Suc (Suc k)))))"

subsection \<open>The polling loop and the handoff cycle\<close>

text \<open>What the consumer process holds: the brain's tables, the mapped header and the number
  of clock readings so far.\<close>

record World =
  w_brain :: Brain
  w_shm :: SharedMemoryHeader
  w_reads :: nat

text \<open>The three statements in the body of \<open>if (shm->frame_ready)\<close> in \<open>main\<close>; the
  mapping succeeded, so the header pointer is not null.\<close>

definition consumer_vision :: "Vision \<Rightarrow> clock \<Rightarrow> Point2D \<Rightarrow> World \<Rightarrow> World" where
  "consumer_vision vis now junk w =
     (case vision_process_frame vis now junk (Some (w_shm w)) (w_reads w) of
        (status, shm, k) \<Rightarrow>
          w\<lparr>w_shm := (case shm of Some h \<Rightarrow> h | None \<Rightarrow> w_shm w), w_reads := k\<rparr>)"

definition consumer_brain :: "clock \<Rightarrow> World \<Rightarrow> World" where
  "consumer_brain now w =
     (case brain_process (w_brain w) now (Some (w_shm w)) (w_reads w) of
        (status, b, shm, k) \<Rightarrow>
          w\<lparr>w_brain := b, w_shm := (case shm of Some h \<Rightarrow> h | None \<Rightarrow> w_shm w), w_reads := k\<rparr>)"

definition consumer_clear :: "World \<Rightarrow> World" where
  "consumer_clear w = w\<lparr>w_shm := (w_shm w)\<lparr>frame_ready := 0\<rparr>\<rparr>"

text \<open>One iteration of \<open>while (1)\<close>: the clock is read at the start and before the sleep.\<close>

definition main_iteration :: "Vision \<Rightarrow> clock \<Rightarrow> Point2D \<Rightarrow> World \<Rightarrow> World" where
  "main_iteration vis now junk w =
     (let w1 = w\<lparr>w_reads := Suc (w_reads w)\<rparr>;
          w2 = (if frame_ready (w_shm w1) \<noteq> 0
                then consumer_clear (consumer_brain now (consumer_vision vis now junk w1))
                else w1)
      in w2\<lparr>w_reads := Suc (w_reads w2)\<rparr>)"

text \<open>
  Modelled from the spec: the producer is the capture process, which is not part of the
  repository. It sets \<open>frame_ready = 1\<close> when a frame is ready and, on seeing
  \<open>result_ready = 1\<close>, clears it before preparing the next frame.
\<close>

definition producer_submit :: "World \<Rightarrow> World" where
  "producer_submit w = w\<lparr>w_shm := (w_shm w)\<lparr>frame_ready := 1\<rparr>\<rparr>"

definition producer_collect :: "World \<Rightarrow> World" where
  "producer_collect w = w\<lparr>w_shm := (w_shm w)\<lparr>result_ready := 0\<rparr>\<rparr>"

text \<open>
  The observation points of one handoff cycle, named by what has just happened, and the
  step from each to the next. The consumer steps are the statements of \<open>main\<close>.
\<close>

datatype Phase =
    PRODUCER_IDLE
  | FRAME_SUBMITTED
  | VISION_DONE
  | BRAIN_DONE
  | FRAME_CLEARED

fun handoff_step :: "Vision \<Rightarrow> clock \<Rightarrow> Point2D \<Rightarrow> Phase \<times> World \<Rightarrow> Phase \<times> World" where
  "handoff_step vis now junk (PRODUCER_IDLE, w) = (FRAME_SUBMITTED, producer_submit w)"
| "handoff_step vis now junk (FRAME_SUBMITTED, w) =
     (if frame_ready (w_shm w) \<noteq> 0 then (VISION_DONE, consumer_vision vis now junk w)
      else (FRAME_SUBMITTED, w))"
| "handoff_step vis now junk (VISION_DONE, w) = (BRAIN_DONE, consumer_brain now w)"
| "handoff_step vis now junk (BRAIN_DONE, w) = (FRAME_CLEARED, consumer_clear w)"
| "handoff_step vis now junk (FRAME_CLEARED, w) =
     (if result_ready (w_shm w) \<noteq> 0 then (PRODUCER_IDLE, producer_collect w)
      else (FRAME_CLEARED, w))"

definition both_flags_set :: "World \<Rightarrow> bool" where
  "both_flags_set w \<longleftrightarrow> frame_ready (w_shm w) = 1 \<and> result_ready (w_shm w) = 1"

text \<open>The two flags at each observation point of the cycle.\<close>

fun flags_at :: "Phase \<Rightarrow> u32 \<times> u32" where
  "flags_at PRODUCER_IDLE = (0, 0)"
| "flags_at FRAME_SUBMITTED = (1, 0)"
| "flags_at VISION_DONE = (1, 0)"
| "flags_at BRAIN_DONE = (1, 1)"
| "flags_at FRAME_CLEARED = (0, 1)"

section \<open>Scenario data\<close>

text \<open>A header with no frame pending, a one-pixel white template with its trigger, a clock
  that advances by 10 ns between readings, and a consumer with no triggers and no rules.\<close>

definition empty_result :: VisionResult where
  "empty_result =
     \<lparr>trigger_id = 0, found = False, confidence = 0, location = \<lparr>pt_x = 0, pt_y = 0\<rparr>,
      bounding_box = \<lparr>rect_x = 0, rect_y = 0, rect_width = 0, rect_height = 0\<rparr>,
      timestamp_ns = 0\<rparr>"

definition idle_header :: "int \<Rightarrow> int \<Rightarrow> pixels \<Rightarrow> SharedMemoryHeader" where
  "idle_header w h px =
     \<lparr>magic = 0x52415348, version = 1, frame_number = 0, frame_timestamp_ns = 0,
      frame_ready = 0, result_ready = 0, current_state = GAME_STATE_IDLE,
      frame_width = w, frame_height = h, frame_stride = w * 4,
      vision_latency_ns = 0, brain_latency_ns = 0, total_latency_ns = 0,
      num_results = 0, shm_results = replicate 16 empty_result,
      pending_action = no_action, frame_buffer = px\<rparr>"

definition white_dot :: TemplateData where
  "white_dot =
     \<lparr>tmpl_id = 9, tmpl_name = ''dot'', tmpl_data = (\<lambda>i. 255), tmpl_width = 1, tmpl_height = 1,
      threshold = 9 / 10,
      search_region = \<lparr>rect_x = 0, rect_y = 0, rect_width = 0, rect_height = 0\<rparr>\<rparr>"

definition dot_vision :: Vision where
  "dot_vision =
     \<lparr>g_templates = [white_dot],
      g_triggers = [\<lparr>trig_id = 3, trig_name = ''dot'', params = TRIGGER_TEMPLATE_MATCH 0,
                     region = \<lparr>rect_x = 0, rect_y = 0, rect_width = 0, rect_height = 0\<rparr>,
                     active = True\<rparr>]\<rparr>"

definition ticking :: clock where
  "ticking k = 1000 + 10 * int k"

definition idle_world :: World where
  "idle_world =
     \<lparr>w_brain = \<lparr>g_rules = [], g_variables = [], g_current_state = GAME_STATE_IDLE\<rparr>,
      w_shm = idle_header 1 1 (\<lambda>i. 0), w_reads = 0\<rparr>"

definition no_triggers :: Vision where
  "no_triggers = \<lparr>g_templates = [], g_triggers = []\<rparr>"













section \<open>Properties of the logic brain\<close>

text \<open>
  \<^bold>\<open>C10.\<close> Called with a null results pointer or with \<open>count \<le> 0\<close>, \<open>brain_evaluate\<close>
  returns the command of type \<open>ACTION_NONE\<close> whose other fields are all zero, whatever the
  rule table holds, and the brain, the variable table included, is unchanged.
\<close>

theorem brain_evaluate_no_results:
  assumes "results = None \<or> count \<le> 0"
  shows "brain_evaluate b results count = (no_action, b)
         \<and> ac_type no_action = ACTION_NONE
         \<and> ac_start no_action = \<lparr>pt_x = 0, pt_y = 0\<rparr> \<and> ac_end no_action = \<lparr>pt_x = 0, pt_y = 0\<rparr>
         \<and> duration_ms no_action = 0 \<and> hold_ms no_action = 0 \<and> randomize no_action = 0"
  using assms by (auto simp: brain_evaluate_def no_action_def split: option.splits)

theorem brain_evaluate_no_results_witness:
  "brain_evaluate
     \<lparr>g_rules = [\<lparr>condition = ''1'', action = ACTION_TAP, action_target = \<lparr>pt_x = 5, pt_y = 6\<rparr>,
                  priority = 1\<rparr>],
      g_variables = [\<lparr>var_name = ''bird_y'', var_value = 7\<rparr>],
      g_current_state = GAME_STATE_DETECTING\<rparr>
     (Some [\<lparr>trigger_id = 1, found = True, confidence = 1, location = \<lparr>pt_x = 3, pt_y = 4\<rparr>,
            bounding_box = \<lparr>rect_x = 0, rect_y = 0, rect_width = 0, rect_height = 0\<rparr>,
            timestamp_ns = 0\<rparr>]) 0
   = (no_action,
      \<lparr>g_rules = [\<lparr>condition = ''1'', action = ACTION_TAP, action_target = \<lparr>pt_x = 5, pt_y = 6\<rparr>,
                   priority = 1\<rparr>],
       g_variables = [\<lparr>var_name = ''bird_y'', var_value = 7\<rparr>],
       g_current_state = GAME_STATE_DETECTING\<rparr>)"
  using brain_evaluate_no_results [of _ 0] by simp


subsection \<open>Blackboard\<close>

lemma replace_variable_None: "replace_variable n v vs = None \<longleftrightarrow> n \<notin> var_name ` set vs"
  by (induction vs) auto

lemma replace_variable_Some:
  "replace_variable n v vs = Some vs' \<Longrightarrow>
     \<exists>pre e post. vs = pre @ e # post \<and> var_name e = n \<and> n \<notin> var_name ` set pre
       \<and> vs' = pre @ e\<lparr>var_value := v\<rparr> # post"
proof (induction vs arbitrary: vs')
  case Nil
  then show ?case by simp
next
  case (Cons a vs)
  show ?case
  proof (cases "var_name a = n")
    case True
    with Cons.prems have "vs' = a\<lparr>var_value := v\<rparr> # vs" by simp
    with True show ?thesis by (intro exI [of _ "[]"] exI [of _ a] exI [of _ vs]) simp
  next
    case False
    with Cons.prems obtain ws where ws: "replace_variable n v vs = Some ws" "vs' = a # ws"
      by auto
    from Cons.IH [OF ws(1)] obtain pre e post where
      "vs = pre @ e # post" "var_name e = n" "n \<notin> var_name ` set pre"
      "ws = pre @ e\<lparr>var_value := v\<rparr> # post" by blast
    with False ws(2) show ?thesis
      by (intro exI [of _ "a # pre"] exI [of _ e] exI [of _ post]) simp
  qed
qed

lemma get_variable_append:
  "get_variable (xs @ ys) n = (if n \<in> var_name ` set xs then get_variable xs n else get_variable ys n)"
  by (induction xs) auto

lemma get_variable_absent: "n \<notin> var_name ` set vs \<Longrightarrow> get_variable vs n = 0"
  by (induction vs) auto

lemma get_replace_same:
  "replace_variable n v vs = Some vs' \<Longrightarrow> get_variable vs' n = v"
  by (induction vs arbitrary: vs') (auto split: if_splits)

lemma get_replace_other:
  "replace_variable m w vs = Some vs' \<Longrightarrow> m \<noteq> n \<Longrightarrow> get_variable vs' n = get_variable vs n"
  by (induction vs arbitrary: vs') (auto split: if_splits)

text \<open>
  \<^bold>\<open>C7 (amended).\<close> With fewer than 64 live names, \<open>set_variable\<close> succeeds; it overwrites
  the first entry whose name equals the given one, and otherwise appends an entry under the first
  31 characters of the name. For a name of at most 31 characters, \<open>get_variable\<close> then returns
  the value just set, and setting a different name (whose 31-character prefix also differs)
  leaves that value in place.
\<close>

theorem set_then_get:
  assumes "length vs < MAX_VARIABLES"
  shows "fst (set_variable vs n v) = 0
    \<and> (n \<in> var_name ` set vs \<longrightarrow>
         (\<exists>pre e post. vs = pre @ e # post \<and> var_name e = n \<and> n \<notin> var_name ` set pre
            \<and> snd (set_variable vs n v) = pre @ e\<lparr>var_value := v\<rparr> # post))
    \<and> (n \<notin> var_name ` set vs \<longrightarrow>
         snd (set_variable vs n v) = vs @ [\<lparr>var_name = take 31 n, var_value = v\<rparr>])
    \<and> (length n \<le> 31 \<longrightarrow> get_variable (snd (set_variable vs n v)) n = v)
    \<and> (m \<noteq> n \<and> take 31 m \<noteq> n \<longrightarrow>
         get_variable (snd (set_variable vs m w)) n = get_variable vs n)"
proof (intro conjI impI)
  show "fst (set_variable vs n v) = 0"
    using assms by (simp add: set_variable_def split: option.splits)
next
  assume "n \<in> var_name ` set vs"
  then obtain vs' where r: "replace_variable n v vs = Some vs'"
    using replace_variable_None [of n v vs] by (cases "replace_variable n v vs") auto
  then have "snd (set_variable vs n v) = vs'" by (simp add: set_variable_def)
  with replace_variable_Some [OF r]
  show "\<exists>pre e post. vs = pre @ e # post \<and> var_name e = n \<and> n \<notin> var_name ` set pre
            \<and> snd (set_variable vs n v) = pre @ e\<lparr>var_value := v\<rparr> # post" by simp
next
  assume "n \<notin> var_name ` set vs"
  then have "replace_variable n v vs = None" by (simp add: replace_variable_None)
  then show "snd (set_variable vs n v) = vs @ [\<lparr>var_name = take 31 n, var_value = v\<rparr>]"
    using assms by (simp add: set_variable_def)
next
  assume n: "length n \<le> 31"
  show "get_variable (snd (set_variable vs n v)) n = v"
  proof (cases "replace_variable n v vs")
    case None
    then have "n \<notin> var_name ` set vs" by (simp add: replace_variable_None)
    with None n assms show ?thesis
      by (simp add: set_variable_def get_variable_append)
  next
    case (Some vs')
    then show ?thesis by (simp add: set_variable_def get_replace_same)
  qed
next
  assume m: "m \<noteq> n \<and> take 31 m \<noteq> n"
  show "get_variable (snd (set_variable vs m w)) n = get_variable vs n"
  proof (cases "replace_variable m w vs")
    case None
    with m assms show ?thesis
      by (simp add: set_variable_def get_variable_append get_variable_absent)
  next
    case (Some vs')
    with m show ?thesis by (simp add: set_variable_def get_replace_other)
  qed
qed

theorem set_then_get_witness:
  "length [\<lparr>var_name = ''bird_x'', var_value = 3\<rparr>] < MAX_VARIABLES
   \<and> set_variable [\<lparr>var_name = ''bird_x'', var_value = 3\<rparr>] ''bird_y'' 7
       = (0, [\<lparr>var_name = ''bird_x'', var_value = 3\<rparr>, \<lparr>var_name = ''bird_y'', var_value = 7\<rparr>])
   \<and> get_variable (snd (set_variable [\<lparr>var_name = ''bird_x'', var_value = 3\<rparr>] ''bird_y'' 7)) ''bird_y'' = 7
   \<and> get_variable (snd (set_variable [\<lparr>var_name = ''bird_x'', var_value = 3\<rparr>] ''bird_y'' 7)) ''bird_x'' = 3"
  using set_then_get [of "[\<lparr>var_name = ''bird_x'', var_value = 3\<rparr>]" "''bird_y''" 7 "''bird_x''" 3]
  by (simp add: MAX_VARIABLES_def set_variable_def)

text \<open>
  A name of 32 characters is stored under its first 31, which the full-string compare of
  \<open>get_variable\<close> does not match: the value read back is 0, not 5.
\<close>

theorem set_then_get_long_name_counterexample:
  "length ([] :: Variable list) < MAX_VARIABLES
   \<and> length ''trigger_region_of_the_upper_pipe'' = 32
   \<and> get_variable (snd (set_variable [] ''trigger_region_of_the_upper_pipe'' 5))
        ''trigger_region_of_the_upper_pipe'' \<noteq> 5"
  by (simp add: MAX_VARIABLES_def set_variable_def)


subsection \<open>Rule selection\<close>

lemma eval_rules_spec:
  "eval_rules vs rs (bp, br) = (bp', br') \<Longrightarrow>
     ((bp', br') = (bp, br) \<and> (\<forall>q\<in>set rs. eval_condition vs (condition q) \<longrightarrow> priority q \<le> bp))
   \<or> (\<exists>pre r post. rs = pre @ r # post \<and> br' = Some r \<and> bp' = priority r
        \<and> eval_condition vs (condition r) \<and> bp < priority r
        \<and> (\<forall>q\<in>set pre. eval_condition vs (condition q) \<longrightarrow> priority q < priority r)
        \<and> (\<forall>q\<in>set post. eval_condition vs (condition q) \<longrightarrow> priority q \<le> priority r))"
proof (induction rs arbitrary: bp br)
  case Nil
  then show ?case by simp
next
  case (Cons a rs)
  show ?case
  proof (cases "bp < priority a \<and> eval_condition vs (condition a)")
    case True
    with Cons.prems have run: "eval_rules vs rs (priority a, Some a) = (bp', br')" by simp
    from Cons.IH [OF run] show ?thesis
    proof (elim disjE conjE exE)
      assume "(bp', br') = (priority a, Some a)"
        and "\<forall>q\<in>set rs. eval_condition vs (condition q) \<longrightarrow> priority q \<le> priority a"
      with True show ?thesis
        by (intro disjI2 exI [of _ "[]"] exI [of _ a] exI [of _ rs]) simp
    next
      fix pre r post
      assume "rs = pre @ r # post" "br' = Some r" "bp' = priority r"
        "eval_condition vs (condition r)" "priority a < priority r"
        "\<forall>q\<in>set pre. eval_condition vs (condition q) \<longrightarrow> priority q < priority r"
        "\<forall>q\<in>set post. eval_condition vs (condition q) \<longrightarrow> priority q \<le> priority r"
      with True show ?thesis
        by (intro disjI2 exI [of _ "a # pre"] exI [of _ r] exI [of _ post]) auto
    qed
  next
    case False
    with Cons.prems have run: "eval_rules vs rs (bp, br) = (bp', br')"
      by (cases "bp < priority a") simp_all
    from Cons.IH [OF run] show ?thesis
    proof (elim disjE conjE exE)
      assume "(bp', br') = (bp, br)"
        and "\<forall>q\<in>set rs. eval_condition vs (condition q) \<longrightarrow> priority q \<le> bp"
      with False show ?thesis by auto
    next
      fix pre r post
      assume "rs = pre @ r # post" "br' = Some r" "bp' = priority r"
        "eval_condition vs (condition r)" "bp < priority r"
        "\<forall>q\<in>set pre. eval_condition vs (condition q) \<longrightarrow> priority q < priority r"
        "\<forall>q\<in>set post. eval_condition vs (condition q) \<longrightarrow> priority q \<le> priority r"
      with False show ?thesis
        by (intro disjI2 exI [of _ "a # pre"] exI [of _ r] exI [of _ post]) auto
    qed
  qed
qed

lemmas eval_unfold =
  eval_condition.simps eval_value.simps tokenize_def tokenize_at_def strtol_def peek_def
  isspace_def isdigit_def isalpha_def isalnum_def digit_val_def Let_def

text \<open>
  \<^bold>\<open>C4 (amended).\<close> Called with results and a positive count, \<open>brain_evaluate\<close> first
  updates the blackboard and then selects, among the rules of priority at least 0 whose condition
  is true on the updated blackboard, the one of highest priority, the earliest-inserted among
  equals. The command is then \<open>{type = rule.action, start = rule.action_target, end = (0,0),
  duration_ms = 50, hold_ms = 0, randomize = 0.3}\<close>; when no rule of priority at least 0 has
  a true condition the command has type \<open>ACTION_NONE\<close>.
\<close>

theorem brain_evaluate_selects:
  assumes "0 < count"
    and "vs = foldl update_variables (g_variables b) (take (nat count) rs)"
  shows "snd (brain_evaluate b (Some rs) count) = b\<lparr>g_variables := vs\<rparr>
    \<and> ((\<forall>q\<in>set (g_rules b). eval_condition vs (condition q) \<longrightarrow> priority q < 0) \<longrightarrow>
         fst (brain_evaluate b (Some rs) count) = no_action \<and> ac_type no_action = ACTION_NONE)
    \<and> ((\<exists>q\<in>set (g_rules b). eval_condition vs (condition q) \<and> 0 \<le> priority q) \<longrightarrow>
         (\<exists>pre r post. g_rules b = pre @ r # post
            \<and> eval_condition vs (condition r) \<and> 0 \<le> priority r
            \<and> (\<forall>q\<in>set pre. eval_condition vs (condition q) \<longrightarrow> priority q < priority r)
            \<and> (\<forall>q\<in>set post. eval_condition vs (condition q) \<longrightarrow> priority q \<le> priority r)
            \<and> fst (brain_evaluate b (Some rs) count) =
                \<lparr>ac_type = action r, ac_start = action_target r, ac_end = \<lparr>pt_x = 0, pt_y = 0\<rparr>,
                 duration_ms = 50, hold_ms = 0, randomize = 3 / 10\<rparr>))"
proof -
  obtain bp br where run: "eval_rules vs (g_rules b) (- 1, None) = (bp, br)"
    by (cases "eval_rules vs (g_rules b) (- 1, None)")
  have act: "fst (brain_evaluate b (Some rs) count) =
      (case br of None \<Rightarrow> no_action
       | Some r \<Rightarrow> no_action\<lparr>ac_type := action r, ac_start := action_target r,
           duration_ms := 50, randomize := 3 / 10\<rparr>)"
    using assms run by (simp add: brain_evaluate_def Let_def)
  have st: "snd (brain_evaluate b (Some rs) count) = b\<lparr>g_variables := vs\<rparr>"
    using assms by (simp add: brain_evaluate_def Let_def)
  from eval_rules_spec [OF run] show ?thesis
  proof (elim disjE conjE exE)
    assume same: "(bp, br) = (- 1, None)"
      and low: "\<forall>q\<in>set (g_rules b). eval_condition vs (condition q) \<longrightarrow> priority q \<le> - 1"
    from same act have "fst (brain_evaluate b (Some rs) count) = no_action" by simp
    moreover from low have "\<not> (\<exists>q\<in>set (g_rules b). eval_condition vs (condition q) \<and> 0 \<le> priority q)"
      by fastforce
    ultimately show ?thesis using st by (simp add: no_action_def)
  next
    fix pre r post
    assume split: "g_rules b = pre @ r # post" and br: "br = Some r"
      and tr: "eval_condition vs (condition r)" and pos: "- 1 < priority r"
      and before: "\<forall>q\<in>set pre. eval_condition vs (condition q) \<longrightarrow> priority q < priority r"
      and after: "\<forall>q\<in>set post. eval_condition vs (condition q) \<longrightarrow> priority q \<le> priority r"
    from br act have cmd: "fst (brain_evaluate b (Some rs) count) =
        \<lparr>ac_type = action r, ac_start = action_target r, ac_end = \<lparr>pt_x = 0, pt_y = 0\<rparr>,
         duration_ms = 50, hold_ms = 0, randomize = 3 / 10\<rparr>"
      by (simp add: no_action_def)
    have notlow: "\<not> (\<forall>q\<in>set (g_rules b). eval_condition vs (condition q) \<longrightarrow> priority q < 0)"
      using split tr pos by auto
    have "\<exists>pre r post. g_rules b = pre @ r # post
            \<and> eval_condition vs (condition r) \<and> 0 \<le> priority r
            \<and> (\<forall>q\<in>set pre. eval_condition vs (condition q) \<longrightarrow> priority q < priority r)
            \<and> (\<forall>q\<in>set post. eval_condition vs (condition q) \<longrightarrow> priority q \<le> priority r)
            \<and> fst (brain_evaluate b (Some rs) count) =
                \<lparr>ac_type = action r, ac_start = action_target r, ac_end = \<lparr>pt_x = 0, pt_y = 0\<rparr>,
                 duration_ms = 50, hold_ms = 0, randomize = 3 / 10\<rparr>"
      using split tr pos before after cmd
      by (intro exI [of _ pre] exI [of _ r] exI [of _ post]) simp
    with st notlow show ?thesis by blast
  qed
qed




text \<open>
  The loop starts from \<open>best_priority = -1\<close>, so a rule of negative priority is never
  selected: here the only rule has a true condition and priority \<open>-1\<close>, and the command
  is \<open>ACTION_NONE\<close>.
\<close>

theorem negative_priority_counterexample:
  "eval_condition [] ''1''
   \<and> fst (brain_evaluate
        \<lparr>g_rules = [\<lparr>condition = ''1'', action = ACTION_TAP,
                     action_target = \<lparr>pt_x = 500, pt_y = 500\<rparr>, priority = - 1\<rparr>],
         g_variables = [], g_current_state = GAME_STATE_IDLE\<rparr>
        (Some [\<lparr>trigger_id = 7, found = False, confidence = 0, location = \<lparr>pt_x = 0, pt_y = 0\<rparr>,
            bounding_box = \<lparr>rect_x = 0, rect_y = 0, rect_width = 0, rect_height = 0\<rparr>,
            timestamp_ns = 0\<rparr>]) 1) = no_action
   \<and> ac_type no_action = ACTION_NONE"
  by (simp add: brain_evaluate_def update_variables_def no_action_def eval_unfold)

theorem brain_evaluate_selects_witness:
  "(0::int) < 1
   \<and> snd (brain_evaluate
        \<lparr>g_rules = [rule_R1, rule_R2],
         g_variables = [\<lparr>var_name = ''bird_y'', var_value = 100\<rparr>,
                        \<lparr>var_name = ''gap_center_y'', var_value = 50\<rparr>],
         g_current_state = GAME_STATE_IDLE\<rparr>
        (Some [\<lparr>trigger_id = 7, found = False, confidence = 0, location = \<lparr>pt_x = 0, pt_y = 0\<rparr>,
            bounding_box = \<lparr>rect_x = 0, rect_y = 0, rect_width = 0, rect_height = 0\<rparr>,
            timestamp_ns = 0\<rparr>]) 1)
      = \<lparr>g_rules = [rule_R1, rule_R2],
         g_variables = [\<lparr>var_name = ''bird_y'', var_value = 100\<rparr>,
                        \<lparr>var_name = ''gap_center_y'', var_value = 50\<rparr>],
         g_current_state = GAME_STATE_IDLE\<rparr>
   \<and> fst (brain_evaluate
        \<lparr>g_rules = [rule_R1, rule_R2],
         g_variables = [\<lparr>var_name = ''bird_y'', var_value = 100\<rparr>,
                        \<lparr>var_name = ''gap_center_y'', var_value = 50\<rparr>],
         g_current_state = GAME_STATE_IDLE\<rparr>
        (Some [\<lparr>trigger_id = 7, found = False, confidence = 0, location = \<lparr>pt_x = 0, pt_y = 0\<rparr>,
            bounding_box = \<lparr>rect_x = 0, rect_y = 0, rect_width = 0, rect_height = 0\<rparr>,
            timestamp_ns = 0\<rparr>]) 1)
      = \<lparr>ac_type = ACTION_TAP, ac_start = \<lparr>pt_x = 600, pt_y = 600\<rparr>,
         ac_end = \<lparr>pt_x = 0, pt_y = 0\<rparr>, duration_ms = 50, hold_ms = 0, randomize = 3 / 10\<rparr>"
proof -
  let ?b = "\<lparr>g_rules = [rule_R1, rule_R2],
         g_variables = [\<lparr>var_name = ''bird_y'', var_value = 100\<rparr>,
                        \<lparr>var_name = ''gap_center_y'', var_value = 50\<rparr>],
         g_current_state = GAME_STATE_IDLE\<rparr>"
  let ?rs = "[\<lparr>trigger_id = 7, found = False, confidence = 0, location = \<lparr>pt_x = 0, pt_y = 0\<rparr>,
            bounding_box = \<lparr>rect_x = 0, rect_y = 0, rect_width = 0, rect_height = 0\<rparr>,
            timestamp_ns = 0\<rparr>]"
  have c: "(0::int) < 1" by simp
  have v: "g_variables ?b = foldl update_variables (g_variables ?b) (take (nat 1) ?rs)"
    by (simp add: update_variables_def)
  have "snd (brain_evaluate ?b (Some ?rs) 1) = ?b\<lparr>g_variables := g_variables ?b\<rparr>"
    using brain_evaluate_selects [OF c v] by blast
  moreover have "fst (brain_evaluate ?b (Some ?rs) 1)
      = \<lparr>ac_type = ACTION_TAP, ac_start = \<lparr>pt_x = 600, pt_y = 600\<rparr>,
         ac_end = \<lparr>pt_x = 0, pt_y = 0\<rparr>, duration_ms = 50, hold_ms = 0, randomize = 3 / 10\<rparr>"
    by (simp add: brain_evaluate_def update_variables_def no_action_def rule_R1_def rule_R2_def
        eval_unfold)
  ultimately show ?thesis by simp
qed

subsection \<open>The expression evaluator\<close>

lemma isspace_chars:
  "isspace c \<Longrightarrow> \<not> isdigit c \<and> \<not> isalpha c \<and> c \<notin> set ''><=!&|+-_''"
  by (auto simp: isspace_def isdigit_def isalpha_def)

lemma isdigit_chars:
  "isdigit c \<Longrightarrow> \<not> isspace c \<and> \<not> isalpha c \<and> c \<notin> set ''><=!&|+-_''"
  by (auto simp: isspace_def isdigit_def isalpha_def)

lemma isalpha_chars:
  "isalpha c \<Longrightarrow> \<not> isspace c \<and> \<not> isdigit c \<and> c \<notin> set ''><=!&|+-_''"
  by (auto simp: isspace_def isdigit_def isalpha_def)

lemma underscore_chars:
  "\<not> isspace CHR ''_'' \<and> \<not> isdigit CHR ''_'' \<and> \<not> isalpha CHR ''_''"
  by (simp add: isspace_def isdigit_def isalpha_def)

lemma operator_chars:
  "c \<in> set ''><=!&|+-'' \<Longrightarrow> \<not> isspace c \<and> \<not> isdigit c \<and> \<not> isalpha c \<and> c \<noteq> CHR ''_''"
  by (auto simp: isspace_def isdigit_def isalpha_def)

lemma nul_chars:
  "\<not> isspace (CHR 0x00) \<and> \<not> isdigit (CHR 0x00) \<and> \<not> isalpha (CHR 0x00)"
  by (simp add: isspace_def isdigit_def isalpha_def)

lemma peek_Cons [simp]: "peek (c # cs) = c"
  by (simp add: peek_def)

lemma peek_Nil [simp]: "peek [] = CHR 0x00"
  by (simp add: peek_def)

lemma peek_append: "xs \<noteq> [] \<Longrightarrow> peek (xs @ ys) = hd xs"
  by (cases xs) simp_all

lemma skip_blank:
  assumes "blank w" and "\<not> isspace (peek s)"
  shows "dropWhile isspace (w @ s) = s"
proof -
  have "dropWhile isspace (w @ s) = dropWhile isspace s"
    using assms(1) by (intro dropWhile_append2) (simp add: blank_def list_all_iff)
  also have "\<dots> = s"
    using assms(2) by (cases s) simp_all
  finally show ?thesis .
qed

lemma tokenize_blank: "blank w \<Longrightarrow> tokenize w = (TOKEN_END, [])"
proof -
  assume "blank w"
  then have "dropWhile isspace w = []"
    by (simp add: blank_def list_all_iff)
  then show ?thesis by (simp add: tokenize_def tokenize_at_def)
qed

lemma peek_blank: "blank w \<Longrightarrow> \<not> isalnum (peek w) \<and> peek w \<noteq> CHR ''_'' \<and> \<not> isdigit (peek w)"
  using isspace_chars nul_chars
  by (cases w) (auto simp: blank_def isalnum_def)

lemma strtol_lexeme:
  assumes "ds \<noteq> []" and "list_all isdigit ds" and "\<not> isdigit (peek rest)"
  shows "strtol (lexeme (Number neg ds) @ rest) = (fst (strtol (lexeme (Number neg ds))), rest)"
proof -
  have hd: "isdigit (hd ds)" using assms(1,2) by (cases ds) simp_all
  then have nm: "hd ds \<noteq> CHR ''-''" using isdigit_chars [of "hd ds"] by auto
  have tw: "takeWhile isdigit (ds @ rest) = ds"
  proof -
    have "takeWhile isdigit (ds @ rest) = ds @ takeWhile isdigit rest"
      using assms(2) by (intro takeWhile_append2) (simp add: list_all_iff)
    moreover have "takeWhile isdigit rest = []" using assms(3) by (cases rest) simp_all
    ultimately show ?thesis by simp
  qed
  have dw: "dropWhile isdigit (ds @ rest) = rest"
  proof -
    have "dropWhile isdigit (ds @ rest) = dropWhile isdigit rest"
      using assms(2) by (intro dropWhile_append2) (simp add: list_all_iff)
    moreover have "dropWhile isdigit rest = rest" using assms(3) by (cases rest) simp_all
    ultimately show ?thesis by simp
  qed
  have tw0: "takeWhile isdigit ds = ds" using assms(2) by (simp add: list_all_iff)
  show ?thesis
  proof (cases neg)
    case True
    then show ?thesis by (simp add: strtol_def Let_def tw dw tw0)
  next
    case False
    then show ?thesis
      using nm assms(1) peek_append [of ds "[]"]
      by (simp add: strtol_def Let_def peek_append tw dw tw0)
  qed
qed

lemma tokenize_number:
  assumes "blank w" and "ds \<noteq> []" and "list_all isdigit ds" and "\<not> isdigit (peek rest)"
  shows "tokenize (w @ lexeme (Number neg ds) @ rest)
         = (TOKEN_NUMBER (word_of_int (fst (strtol (lexeme (Number neg ds))))), rest)"
proof -
  have hd: "isdigit (hd ds)" using assms(2,3) by (cases ds) simp_all
  obtain d ds' where ds: "ds = d # ds'" using assms(2) by (cases ds) auto
  with hd have d: "isdigit d" by simp
  have ns: "\<not> isspace (peek (lexeme (Number neg ds) @ rest))"
    using d ds isdigit_chars [of d] operator_chars [of "CHR ''-''"] by (cases neg) simp_all
  have drop: "dropWhile isspace (w @ lexeme (Number neg ds) @ rest) = lexeme (Number neg ds) @ rest"
    using skip_blank [OF assms(1) ns] .
  have "tokenize_at (lexeme (Number neg ds) @ rest)
        = (TOKEN_NUMBER (word_of_int (fst (strtol (lexeme (Number neg ds) @ rest)))),
           snd (strtol (lexeme (Number neg ds) @ rest)))"
    using d ds by (cases neg) (simp_all add: tokenize_at_def)
  then show ?thesis
    using drop strtol_lexeme [OF assms(2,3,4), of neg] by (simp add: tokenize_def)
qed

lemma tokenize_at_ident:
  assumes "isalpha c \<or> c = CHR ''_''"
  shows "tokenize_at (c # cs)
         = (TOKEN_VARIABLE (take 31 (takeWhile (\<lambda>c. isalnum c \<or> c = CHR ''_'') (c # cs))),
            drop (length (take 31 (takeWhile (\<lambda>c. isalnum c \<or> c = CHR ''_'') (c # cs)))) (c # cs))"
proof -
  have "\<not> isdigit c \<and> c \<notin> set ''><=!&|+-''"
    using assms isalpha_chars [of c] underscore_chars by auto
  then show ?thesis
    using assms by (simp add: tokenize_at_def Let_def)
qed

lemma tokenize_ident:
  assumes "blank w" and "wf_atom (Ident n)" and "\<not> isalnum (peek rest)" and "peek rest \<noteq> CHR ''_''"
  shows "tokenize (w @ lexeme (Ident n) @ rest) = (TOKEN_VARIABLE n, rest)"
proof -
  obtain c cs where n: "n = c # cs" using assms(2) by (cases n) auto
  with assms(2) have c: "isalpha c \<or> c = CHR ''_''" by simp
  have ns: "\<not> isspace (peek (n @ rest))"
    using c n isalpha_chars [of c] underscore_chars by auto
  have drop: "dropWhile isspace (w @ n @ rest) = n @ rest"
    using skip_blank [OF assms(1) ns] .
  have tw: "takeWhile (\<lambda>c. isalnum c \<or> c = CHR ''_'') (n @ rest) = n"
  proof -
    have "takeWhile (\<lambda>c. isalnum c \<or> c = CHR ''_'') (n @ rest)
          = n @ takeWhile (\<lambda>c. isalnum c \<or> c = CHR ''_'') rest"
      using assms(2) by (intro takeWhile_append2) (simp add: list_all_iff)
    moreover have "takeWhile (\<lambda>c. isalnum c \<or> c = CHR ''_'') rest = []"
      using assms(3,4) by (cases rest) simp_all
    ultimately show ?thesis by simp
  qed
  have "tokenize_at (n @ rest) = (TOKEN_VARIABLE n, rest)"
    using tokenize_at_ident [OF c, of "cs @ rest"] tw assms(2) n by simp
  then show ?thesis using drop by (simp add: tokenize_def)
qed

lemma tokenize_atom:
  assumes "blank w" and "wf_atom a" and "\<not> isalnum (peek rest)" and "peek rest \<noteq> CHR ''_''"
  shows "\<exists>t. tokenize (w @ lexeme a @ rest) = (t, rest)
           \<and> (case t of TOKEN_NUMBER n \<Rightarrow> n | TOKEN_VARIABLE s \<Rightarrow> get_variable vs s | _ \<Rightarrow> 0)
               = atom_value vs a"
proof (cases a)
  case (Number neg ds)
  have "\<not> isdigit (peek rest)" using assms(3) by (simp add: isalnum_def)
  with assms Number show ?thesis
    using tokenize_number [of w ds rest neg] by simp
next
  case (Ident n)
  with assms show ?thesis
    using tokenize_ident [of w n rest] by simp
qed

lemma tokenize_operator:
  assumes "blank w"
  shows "tokenize (w @ ''+'' @ rest) = (TOKEN_OP_ADD, rest)"
    and "\<not> isdigit (peek rest) \<Longrightarrow> tokenize (w @ ''-'' @ rest) = (TOKEN_OP_SUB, rest)"
    and "peek rest \<noteq> CHR ''='' \<Longrightarrow> tokenize (w @ ''>'' @ rest) = (TOKEN_OP_GT, rest)"
    and "peek rest \<noteq> CHR ''='' \<Longrightarrow> tokenize (w @ ''<'' @ rest) = (TOKEN_OP_LT, rest)"
    and "tokenize (w @ ''>='' @ rest) = (TOKEN_OP_GE, rest)"
    and "tokenize (w @ ''<='' @ rest) = (TOKEN_OP_LE, rest)"
    and "tokenize (w @ ''=='' @ rest) = (TOKEN_OP_EQ, rest)"
    and "tokenize (w @ ''!='' @ rest) = (TOKEN_OP_NE, rest)"
    and "tokenize (w @ ''&&'' @ rest) = (TOKEN_OP_AND, rest)"
    and "tokenize (w @ ''||'' @ rest) = (TOKEN_OP_OR, rest)"
proof -
  have skip: "\<And>c s. c \<in> set ''><=!&|+-'' \<Longrightarrow> dropWhile isspace (w @ c # s) = c # s"
    using skip_blank [OF assms] operator_chars by simp
  show "tokenize (w @ ''+'' @ rest) = (TOKEN_OP_ADD, rest)"
    using skip [of "CHR ''+''" rest] by (simp add: tokenize_def tokenize_at_def isdigit_def)
  show "\<not> isdigit (peek rest) \<Longrightarrow> tokenize (w @ ''-'' @ rest) = (TOKEN_OP_SUB, rest)"
    using skip [of "CHR ''-''" rest] by (simp add: tokenize_def tokenize_at_def isdigit_def)
  show "peek rest \<noteq> CHR ''='' \<Longrightarrow> tokenize (w @ ''>'' @ rest) = (TOKEN_OP_GT, rest)"
    using skip [of "CHR ''>''" rest] by (simp add: tokenize_def tokenize_at_def isdigit_def)
  show "peek rest \<noteq> CHR ''='' \<Longrightarrow> tokenize (w @ ''<'' @ rest) = (TOKEN_OP_LT, rest)"
    using skip [of "CHR ''<''" rest] by (simp add: tokenize_def tokenize_at_def isdigit_def)
  show "tokenize (w @ ''>='' @ rest) = (TOKEN_OP_GE, rest)"
    using skip [of "CHR ''>''" "CHR ''='' # rest"] by (simp add: tokenize_def tokenize_at_def isdigit_def)
  show "tokenize (w @ ''<='' @ rest) = (TOKEN_OP_LE, rest)"
    using skip [of "CHR ''<''" "CHR ''='' # rest"] by (simp add: tokenize_def tokenize_at_def isdigit_def)
  show "tokenize (w @ ''=='' @ rest) = (TOKEN_OP_EQ, rest)"
    using skip [of "CHR ''=''" "CHR ''='' # rest"] by (simp add: tokenize_def tokenize_at_def isdigit_def)
  show "tokenize (w @ ''!='' @ rest) = (TOKEN_OP_NE, rest)"
    using skip [of "CHR ''!''" "CHR ''='' # rest"] by (simp add: tokenize_def tokenize_at_def isdigit_def)
  show "tokenize (w @ ''&&'' @ rest) = (TOKEN_OP_AND, rest)"
    using skip [of "CHR ''&''" "CHR ''&'' # rest"] by (simp add: tokenize_def tokenize_at_def isdigit_def)
  show "tokenize (w @ ''||'' @ rest) = (TOKEN_OP_OR, rest)"
    using skip [of "CHR ''|''" "CHR ''|'' # rest"] by (simp add: tokenize_def tokenize_at_def isdigit_def)
qed

lemma render_value_first:
  "wf_value v \<Longrightarrow>
     render_value v \<noteq> []
     \<and> (isspace (hd (render_value v)) \<or> isdigit (hd (render_value v))
        \<or> isalpha (hd (render_value v)) \<or> hd (render_value v) = CHR ''_''
        \<or> hd (render_value v) = CHR ''-'')"
proof -
  have atom: "\<And>w a t. blank w \<Longrightarrow> wf_atom a \<Longrightarrow>
      w @ lexeme a @ t \<noteq> []
      \<and> (isspace (hd (w @ lexeme a @ t)) \<or> isdigit (hd (w @ lexeme a @ t))
         \<or> isalpha (hd (w @ lexeme a @ t)) \<or> hd (w @ lexeme a @ t) = CHR ''_''
         \<or> hd (w @ lexeme a @ t) = CHR ''-'')"
  proof -
    fix w a t
    assume w: "blank w" and a: "wf_atom a"
    show "w @ lexeme a @ t \<noteq> []
      \<and> (isspace (hd (w @ lexeme a @ t)) \<or> isdigit (hd (w @ lexeme a @ t))
         \<or> isalpha (hd (w @ lexeme a @ t)) \<or> hd (w @ lexeme a @ t) = CHR ''_''
         \<or> hd (w @ lexeme a @ t) = CHR ''-'')"
    proof (cases w)
      case (Cons c cs)
      with w show ?thesis by (simp add: blank_def)
    next
      case Nil
      show ?thesis
      proof (cases a)
        case (Number neg ds)
        with a Nil show ?thesis by (cases ds; cases neg) simp_all
      next
        case (Ident n)
        with a Nil show ?thesis by (cases n) auto
      qed
    qed
  qed
  assume wf: "wf_value v"
  show ?thesis
  proof (cases v)
    case (Atom w a)
    with wf atom [of w a "[]"] show ?thesis by simp
  next
    case (Plus w a w' u)
    with wf atom [of w a "w' @ ''+'' @ render_value u"] show ?thesis by simp
  next
    case (Minus w a w' u)
    with wf atom [of w a "w' @ ''-'' @ render_value u"] show ?thesis by simp
  qed
qed

lemma first_char_not_equals:
  "isspace c \<or> isdigit c \<or> isalpha c \<or> c = CHR ''_'' \<or> c = CHR ''-'' \<Longrightarrow> c \<noteq> CHR ''=''"
  by (auto simp: isspace_def isdigit_def isalpha_def)

lemma render_value_peek:
  assumes "wf_value v"
  shows "peek (render_value v @ rest) \<noteq> CHR ''=''"
proof -
  from render_value_first [OF assms] have ne: "render_value v \<noteq> []"
    and cls: "isspace (hd (render_value v)) \<or> isdigit (hd (render_value v))
        \<or> isalpha (hd (render_value v)) \<or> hd (render_value v) = CHR ''_''
        \<or> hd (render_value v) = CHR ''-''" by simp_all
  from cls have "hd (render_value v) \<noteq> CHR ''=''"
    by (rule first_char_not_equals)
  with ne show ?thesis by (simp add: peek_append)
qed

lemma peek_gap:
  assumes "blank w" and "c \<in> set ''><=!&|+-''"
  shows "\<not> isalnum (peek (w @ c # s)) \<and> peek (w @ c # s) \<noteq> CHR ''_''"
proof (cases w)
  case Nil
  with assms(2) operator_chars [of c] show ?thesis by (simp add: isalnum_def)
next
  case (Cons d ds)
  with assms(1) have "isspace d" by (simp add: blank_def)
  with Cons isspace_chars [of d] show ?thesis by (auto simp: isalnum_def)
qed

lemma eval_value_render:
  assumes "wf_value v"
    and "fst (tokenize rest) \<noteq> TOKEN_OP_ADD" and "fst (tokenize rest) \<noteq> TOKEN_OP_SUB"
    and "\<not> isalnum (peek rest)" and "peek rest \<noteq> CHR ''_''"
  shows "eval_value vs (render_value v @ rest) = (value_of vs v, rest)"
  using assms
proof (induction v)
  case (Atom w a)
  from Atom.prems have w: "blank w" and a: "wf_atom a" by simp_all
  from tokenize_atom [OF w a Atom.prems(4,5), of vs] obtain t where
    t: "tokenize (w @ lexeme a @ rest) = (t, rest)"
    and v: "(case t of TOKEN_NUMBER n \<Rightarrow> n | TOKEN_VARIABLE s \<Rightarrow> get_variable vs s | _ \<Rightarrow> 0)
             = atom_value vs a" by blast
  obtain op e2 where op: "tokenize rest = (op, e2)" by (cases "tokenize rest")
  with Atom.prems(2,3) have "op \<noteq> TOKEN_OP_ADD" "op \<noteq> TOKEN_OP_SUB" by simp_all
  then show ?case
    using t v op by (subst eval_value.simps) simp
next
  case (Plus w a w' v)
  from Plus.prems have w: "blank w" and a: "wf_atom a" and w': "blank w'" and wv: "wf_value v"
    by simp_all
  let ?r1 = "w' @ ''+'' @ render_value v @ rest"
  have b: "\<not> isalnum (peek ?r1) \<and> peek ?r1 \<noteq> CHR ''_''"
    using peek_gap [OF w', of "CHR ''+''"] by simp
  from tokenize_atom [of w a ?r1 vs] w a b obtain t where
    t: "tokenize (w @ lexeme a @ ?r1) = (t, ?r1)"
    and v: "(case t of TOKEN_NUMBER n \<Rightarrow> n | TOKEN_VARIABLE s \<Rightarrow> get_variable vs s | _ \<Rightarrow> 0)
             = atom_value vs a" by blast
  have op: "tokenize ?r1 = (TOKEN_OP_ADD, render_value v @ rest)"
    using tokenize_operator(1) [OF w'] .
  have ih: "eval_value vs (render_value v @ rest) = (value_of vs v, rest)"
    using Plus.IH [OF wv Plus.prems(2-5)] .
  show ?case
    using t v op ih by (subst eval_value.simps) simp
next
  case (Minus w a w' v)
  from Minus.prems have w: "blank w" and a: "wf_atom a" and w': "blank w'" and wv: "wf_value v"
    and glue: "\<not> isdigit (peek (render_value v))" by simp_all
  let ?r1 = "w' @ ''-'' @ render_value v @ rest"
  have b: "\<not> isalnum (peek ?r1) \<and> peek ?r1 \<noteq> CHR ''_''"
    using peek_gap [OF w', of "CHR ''-''"] by simp
  from tokenize_atom [of w a ?r1 vs] w a b obtain t where
    t: "tokenize (w @ lexeme a @ ?r1) = (t, ?r1)"
    and v: "(case t of TOKEN_NUMBER n \<Rightarrow> n | TOKEN_VARIABLE s \<Rightarrow> get_variable vs s | _ \<Rightarrow> 0)
             = atom_value vs a" by blast
  have ne: "render_value v \<noteq> []" using render_value_first [OF wv] by simp
  then have "peek (render_value v @ rest) = peek (render_value v)"
    using peek_append [of "render_value v" rest] peek_append [of "render_value v" "[]"] by simp
  with glue have "\<not> isdigit (peek (render_value v @ rest))" by simp
  then have op: "tokenize ?r1 = (TOKEN_OP_SUB, render_value v @ rest)"
    using tokenize_operator(2) [OF w'] by simp
  have ih: "eval_value vs (render_value v @ rest) = (value_of vs v, rest)"
    using Minus.IH [OF wv Minus.prems(2-5)] .
  show ?case
    using t v op ih by (subst eval_value.simps) simp
qed


lemma tokenize_relop:
  assumes "blank w" and "peek rest \<noteq> CHR ''=''"
  shows "tokenize (w @ relop_text op @ rest) = (relop_token op, rest)"
  using tokenize_operator(3-8) [OF assms(1), of rest] assms(2) by (cases op) simp_all

lemma relop_token_result:
  "(case relop_token op of
      TOKEN_OP_GT \<Rightarrow> r <s l
    | TOKEN_OP_LT \<Rightarrow> l <s r
    | TOKEN_OP_GE \<Rightarrow> r \<le>s l
    | TOKEN_OP_LE \<Rightarrow> l \<le>s r
    | TOKEN_OP_EQ \<Rightarrow> l = r
    | TOKEN_OP_NE \<Rightarrow> l \<noteq> r
    | _ \<Rightarrow> False) = compare op l r"
  by (cases op) simp_all

lemma relop_token_not: "relop_token op \<noteq> TOKEN_END \<and> relop_token op \<noteq> TOKEN_OP_ADD
    \<and> relop_token op \<noteq> TOKEN_OP_SUB"
  by (cases op) simp_all

lemma relop_text_first: "\<exists>c s. relop_text op = c # s \<and> c \<in> set ''><=!&|+-''"
  by (cases op) simp_all

lemma eval_value_before_relop:
  assumes "wf_value v1" and "blank w" and "wf_value v2"
  shows "eval_value vs (render_value v1 @ w @ relop_text op @ render_value v2 @ rest)
         = (value_of vs v1, w @ relop_text op @ render_value v2 @ rest)"
proof -
  let ?r = "w @ relop_text op @ render_value v2 @ rest"
  have tk: "tokenize ?r = (relop_token op, render_value v2 @ rest)"
    using tokenize_relop [OF assms(2) render_value_peek [OF assms(3)]] .
  obtain c s where cs: "relop_text op = c # s" "c \<in> set ''><=!&|+-''"
    using relop_text_first by blast
  have pk: "\<not> isalnum (peek ?r) \<and> peek ?r \<noteq> CHR ''_''"
    using peek_gap [OF assms(2) cs(2), of "s @ render_value v2 @ rest"] cs(1) by simp
  show ?thesis
    using eval_value_render [OF assms(1), of ?r vs] tk relop_token_not [of op] pk by simp
qed

lemma eval_value_before_blank:
  assumes "wf_value v" and "blank w"
  shows "eval_value vs (render_value v @ w) = (value_of vs v, w)"
  using eval_value_render [OF assms(1), of w vs] tokenize_blank [OF assms(2)] peek_blank [OF assms(2)]
  by simp

lemma logical_gap:
  assumes "blank w"
  shows "\<not> isalnum (peek (w @ logical_text l @ s)) \<and> peek (w @ logical_text l @ s) \<noteq> CHR ''_''"
proof (cases l)
  case And
  then show ?thesis using peek_gap [OF assms, of "CHR ''&''" "CHR ''&'' # s"] by simp
next
  case Or
  then show ?thesis using peek_gap [OF assms, of "CHR ''|''" "CHR ''|'' # s"] by simp
qed

lemma eval_value_before_logical:
  assumes "wf_value v" and "blank w"
  shows "eval_value vs (render_value v @ w @ logical_text l @ rest)
         = (value_of vs v, w @ logical_text l @ rest)"
proof -
  have "fst (tokenize (w @ logical_text l @ rest)) \<noteq> TOKEN_OP_ADD
      \<and> fst (tokenize (w @ logical_text l @ rest)) \<noteq> TOKEN_OP_SUB"
    using tokenize_operator(9,10) [OF assms(2), of rest] by (cases l) simp_all
  then show ?thesis
    using eval_value_render [OF assms(1), of "w @ logical_text l @ rest" vs] logical_gap [OF assms(2)]
    by simp
qed

text \<open>
  \<^bold>\<open>C6 (amended).\<close> For every condition of the grammar, written with any white space
  between its tokens, whose identifiers have at most 31 characters and in which no minus
  operator is immediately followed by a digit, \<open>eval_condition\<close> computes the strictly
  right-recursive reading: \<open>v1 relop v2 LOGICAL rest\<close> is \<open>(v1 relop v2) LOGICAL (rest)\<close>
  with no precedence between \<open>&&\<close> and \<open>||\<close>, and \<open>a - b + c\<close> is \<open>a - (b + c)\<close>.
\<close>

theorem eval_condition_right_recursive:
  assumes "wf_condition c"
  shows "eval_condition vs (render_condition c) = holds vs c"
  using assms
proof (induction c)
  case (Truth v w)
  then have v: "wf_value v" and w: "blank w" by simp_all
  show ?case
    using eval_value_before_blank [OF v w] tokenize_blank [OF w]
    by (subst eval_condition.simps) simp
next
  case (Compare v1 w op v2 w')
  then have v1: "wf_value v1" and w: "blank w" and v2: "wf_value v2" and w': "blank w'"
    by simp_all
  have tk: "tokenize (w @ relop_text op @ render_value v2 @ w') = (relop_token op, render_value v2 @ w')"
    using tokenize_relop [OF w render_value_peek [OF v2]] .
  show ?case
    using eval_value_before_relop [OF v1 w v2, of vs op w'] tk relop_token_not [of op]
      eval_value_before_blank [OF v2 w'] tokenize_blank [OF w']
    by (subst eval_condition.simps) (simp add: relop_token_result)
next
  case (Chain v1 w op v2 w' l c)
  then have v1: "wf_value v1" and w: "blank w" and v2: "wf_value v2" and w': "blank w'"
    and c: "wf_condition c" by simp_all
  let ?tail = "w' @ logical_text l @ render_condition c"
  have tk: "tokenize (w @ relop_text op @ render_value v2 @ ?tail) = (relop_token op, render_value v2 @ ?tail)"
    using tokenize_relop [OF w render_value_peek [OF v2]] .
  have tl: "tokenize ?tail = (case l of And \<Rightarrow> TOKEN_OP_AND | Or \<Rightarrow> TOKEN_OP_OR, render_condition c)"
    using tokenize_operator(9,10) [OF w', of "render_condition c"] by (cases l) simp_all
  have ih: "eval_condition vs (render_condition c) = holds vs c"
    using Chain.IH [OF c] .
  show ?case
    using eval_value_before_relop [OF v1 w v2, of vs op ?tail] tk relop_token_not [of op]
      eval_value_before_logical [OF v2 w', of vs l "render_condition c"] tl ih
    by (subst eval_condition.simps) (cases l; simp add: relop_token_result)
qed

text \<open>
  \<open>3-2 > 0\<close> is a condition of the grammar and its right-recursive reading is true, but the
  tokenizer reads \<open>-2\<close> as a number, and \<open>eval_condition\<close> returns 0.
\<close>

theorem glued_minus_counterexample:
  "render_condition glued_minus = ''3-2 > 0''
   \<and> holds [] glued_minus
   \<and> \<not> eval_condition [] (render_condition glued_minus)"
  by (simp add: glued_minus_def eval_unfold word_sless_alt)

theorem eval_condition_right_recursive_witness:
  "wf_condition chained
   \<and> render_condition chained = ''1 > 2 && 1 > 2 || 10 - 3 + 2 == 5''
   \<and> eval_condition [] (render_condition chained) = holds [] chained
   \<and> \<not> holds [] chained
   \<and> value_of [] (Minus '' '' (Number False ''10'') '' ''
        (Plus '' '' (Number False ''3'') '' '' (Atom '' '' (Number False ''2'')))) = 5"
proof -
  have wf: "wf_condition chained"
    by (simp add: chained_def blank_def isspace_def isdigit_def peek_def)
  from eval_condition_right_recursive [OF wf, of "[]"]
  have "eval_condition [] (render_condition chained) = holds [] chained" .
  moreover have "render_condition chained = ''1 > 2 && 1 > 2 || 10 - 3 + 2 == 5''"
    by (simp add: chained_def)
  moreover have "\<not> holds [] chained"
    by (simp add: chained_def strtol_def peek_def isdigit_def digit_val_def Let_def word_sless_alt)
  moreover have "value_of [] (Minus '' '' (Number False ''10'') '' ''
        (Plus '' '' (Number False ''3'') '' '' (Atom '' '' (Number False ''2'')))) = 5"
    by (simp add: strtol_def peek_def isdigit_def digit_val_def Let_def)
  ultimately show ?thesis using wf by simp
qed

section \<open>Properties of the vision engine\<close>

text \<open>
  \<^bold>\<open>C1.\<close> For the pixel \<open>(255, 0, 1)\<close> the integer conversion returns the hue 180, outside
  the range 0 to 179 that \<open>ColorHSV\<close> documents: the quotient \<open>30 * (g - b) / delta\<close> is
  \<open>-30 / 255\<close>, which C truncates to 0 before 180 is added.
\<close>

theorem rgb_to_hsv_hue_out_of_range:
  "rgb_to_hsv 255 0 1 = (180, 255, 255) \<and> \<not> (180 :: u8) \<le> 179"
  by (simp add: rgb_to_hsv_def c_div_def Let_def)

text \<open>
  \<^bold>\<open>C3.\<close> One active template trigger, and a clock that advances between readings:
  the frame's start time is 1000, but the slot carries the time 1010 that
  \<open>vision_find_template\<close> read for itself, and the template's id 9 in place of the trigger's
  id 3, because the whole result is copied over the slot.
\<close>

theorem template_slot_timestamp:
  "(case vision_process_frame dot_vision ticking \<lparr>pt_x = 0, pt_y = 0\<rparr>
           (Some ((idle_header 1 1 (\<lambda>i. 255))\<lparr>frame_ready := 1\<rparr>)) 0
    of (status, shm, k) \<Rightarrow>
      status = 0
      \<and> (case shm of
           None \<Rightarrow> False
         | Some h \<Rightarrow>
             num_results h = 1 \<and> timestamp_ns (shm_results h ! 0) = 1010
             \<and> trigger_id (shm_results h ! 0) = 9))
   \<and> ticking 0 = 1000"
  by (simp add: vision_process_frame_def run_trigger_def vision_find_template_def
      template_search_def search_rect_def
      coarse_search_def coarse_range.simps dot_vision_def white_dot_def idle_header_def
      ticking_def Let_def)

subsection \<open>Colour search\<close>


















subsection \<open>Template matching\<close>

























subsection \<open>Results of a frame\<close>















section \<open>Properties of the frame handoff\<close>

lemma vision_process_frame_flags:
  "vision_process_frame vis now junk (Some h) k = (status, shm, k') \<Longrightarrow>
     \<exists>h'. shm = Some h' \<and> frame_ready h' = frame_ready h \<and> result_ready h' = result_ready h"
  by (auto simp: vision_process_frame_def Let_def split: if_splits prod.splits)

lemma brain_process_flags:
  "brain_process b now (Some h) k = (status, b', shm, k') \<Longrightarrow>
     \<exists>h'. shm = Some h' \<and> frame_ready h' = frame_ready h \<and> result_ready h' = 1"
  by (auto simp: brain_process_def Let_def split: if_splits prod.splits)

lemma consumer_vision_flags:
  "frame_ready (w_shm (consumer_vision vis now junk w)) = frame_ready (w_shm w)
   \<and> result_ready (w_shm (consumer_vision vis now junk w)) = result_ready (w_shm w)"
proof -
  obtain status shm k where r:
    "vision_process_frame vis now junk (Some (w_shm w)) (w_reads w) = (status, shm, k)"
    by (cases "vision_process_frame vis now junk (Some (w_shm w)) (w_reads w)")
  from vision_process_frame_flags [OF r] r show ?thesis
    by (auto simp: consumer_vision_def)
qed

lemma consumer_brain_flags:
  "frame_ready (w_shm (consumer_brain now w)) = frame_ready (w_shm w)
   \<and> result_ready (w_shm (consumer_brain now w)) = 1"
proof -
  obtain status b shm k where r:
    "brain_process (w_brain w) now (Some (w_shm w)) (w_reads w) = (status, b, shm, k)"
    by (cases "brain_process (w_brain w) now (Some (w_shm w)) (w_reads w)")
  from brain_process_flags [OF r] r show ?thesis
    by (auto simp: consumer_brain_def)
qed

lemma handoff_step_flags:
  assumes "(frame_ready (w_shm w), result_ready (w_shm w)) = flags_at ph"
    and "handoff_step vis now junk (ph, w) = (ph', w')"
  shows "(frame_ready (w_shm w'), result_ready (w_shm w')) = flags_at ph'"
  using assms consumer_vision_flags [of vis now junk w] consumer_brain_flags [of now w]
  by (cases ph) (auto simp: producer_submit_def producer_collect_def consumer_clear_def)

lemma handoff_run_flags:
  assumes "(frame_ready (w_shm w), result_ready (w_shm w)) = flags_at ph"
    and "(handoff_step vis now junk ^^ n) (ph, w) = (ph', w')"
  shows "(frame_ready (w_shm w'), result_ready (w_shm w')) = flags_at ph'"
  using assms(2)
proof (induction n arbitrary: ph' w')
  case 0
  with assms(1) show ?case by simp
next
  case (Suc n)
  obtain ph1 w1 where mid: "(handoff_step vis now junk ^^ n) (ph, w) = (ph1, w1)"
    by (cases "(handoff_step vis now junk ^^ n) (ph, w)")
  with Suc.prems have "handoff_step vis now junk (ph1, w1) = (ph', w')" by simp
  from handoff_step_flags [OF Suc.IH [OF mid] this] show ?case .
qed

text \<open>
  \<^bold>\<open>C9 (amended).\<close> Starting a cycle with both flags clear, the flags at every
  observation point are determined by the phase, and both are set at exactly one of them:
  after \<open>brain_process\<close> has stored \<open>result_ready = 1\<close> and before the loop clears
  \<open>frame_ready\<close>.
\<close>

theorem handoff_flags:
  assumes "frame_ready (w_shm w) = 0" and "result_ready (w_shm w) = 0"
    and "(handoff_step vis now junk ^^ n) (PRODUCER_IDLE, w) = (ph, w')"
  shows "(both_flags_set w' \<longleftrightarrow> ph = BRAIN_DONE)
    \<and> (frame_ready (w_shm w'), result_ready (w_shm w')) = flags_at ph"
proof -
  have "(frame_ready (w_shm w), result_ready (w_shm w)) = flags_at PRODUCER_IDLE"
    using assms(1,2) by simp
  from handoff_run_flags [OF this assms(3)]
  have f: "(frame_ready (w_shm w'), result_ready (w_shm w')) = flags_at ph" .
  then show ?thesis by (cases ph) (auto simp: both_flags_set_def)
qed

lemma three_steps:
  "(handoff_step no_triggers ticking \<lparr>pt_x = 0, pt_y = 0\<rparr> ^^ 3) (PRODUCER_IDLE, idle_world)
   = (BRAIN_DONE,
      consumer_brain ticking
        (consumer_vision no_triggers ticking \<lparr>pt_x = 0, pt_y = 0\<rparr> (producer_submit idle_world)))"
  by (simp add: eval_nat_numeral producer_submit_def idle_world_def idle_header_def)

text \<open>Three steps into the cycle, after \<open>brain_process\<close>, both flags are set.\<close>

theorem both_flags_counterexample:
  "frame_ready (w_shm idle_world) = 0 \<and> result_ready (w_shm idle_world) = 0
   \<and> both_flags_set
       (snd ((handoff_step no_triggers ticking \<lparr>pt_x = 0, pt_y = 0\<rparr> ^^ 3)
               (PRODUCER_IDLE, idle_world)))"
  using consumer_brain_flags [of ticking
      "consumer_vision no_triggers ticking \<lparr>pt_x = 0, pt_y = 0\<rparr> (producer_submit idle_world)"]
    consumer_vision_flags [of no_triggers ticking "\<lparr>pt_x = 0, pt_y = 0\<rparr>" "producer_submit idle_world"]
  by (simp add: three_steps both_flags_set_def)
     (simp add: producer_submit_def idle_world_def idle_header_def)

theorem handoff_flags_witness:
  "frame_ready (w_shm idle_world) = 0 \<and> result_ready (w_shm idle_world) = 0
   \<and> fst ((handoff_step no_triggers ticking \<lparr>pt_x = 0, pt_y = 0\<rparr> ^^ 5)
            (PRODUCER_IDLE, idle_world)) = PRODUCER_IDLE
   \<and> \<not> both_flags_set
       (snd ((handoff_step no_triggers ticking \<lparr>pt_x = 0, pt_y = 0\<rparr> ^^ 5)
               (PRODUCER_IDLE, idle_world)))"
proof -
  have a: "frame_ready (w_shm idle_world) = 0" and b: "result_ready (w_shm idle_world) = 0"
    by (simp_all add: idle_world_def idle_header_def)
  obtain ph w' where r:
    "(handoff_step no_triggers ticking \<lparr>pt_x = 0, pt_y = 0\<rparr> ^^ 5) (PRODUCER_IDLE, idle_world) = (ph, w')"
    by (cases "(handoff_step no_triggers ticking \<lparr>pt_x = 0, pt_y = 0\<rparr> ^^ 5) (PRODUCER_IDLE, idle_world)")
  have ph: "ph = PRODUCER_IDLE"
    using r consumer_brain_flags [of ticking
      "consumer_vision no_triggers ticking \<lparr>pt_x = 0, pt_y = 0\<rparr> (producer_submit idle_world)"]
    by (simp add: eval_nat_numeral producer_submit_def idle_world_def idle_header_def
        consumer_clear_def split: if_splits)
  from handoff_flags [OF a b r] ph have "\<not> both_flags_set w'" by simp
  with a b r ph show ?thesis by simp
qed


end
